theory Spec2Isabelle
  imports Main "HOL-Library.Word"
begin

unbundle bit_operations_syntax

section \<open>Go values: bytes, slices, panics and errors\<close>

text \<open>
  A Go \<^verbatim>\<open>byte\<close> is an 8-bit word and a \<^verbatim>\<open>uint32\<close> a 32-bit word. A
  \<^verbatim>\<open>[]byte\<close> made by \<^verbatim>\<open>make([]byte, n)\<close> has length and capacity \<open>n\<close>
  and is modelled by the list of its bytes, so \<^verbatim>\<open>cap(s)\<close> is \<open>length s\<close>.
  Slice indices are Go \<^verbatim>\<open>int\<close>s; they are modelled by \<open>int\<close>, because a
  slice is far shorter than \<open>2^62\<close> bytes and no index computation of the buffer
  wraps around. A run-time panic is the \<open>Inl\<close> branch of a sum.
\<close>

type_synonym byte = "8 word"
type_synonym uint32 = "32 word"

datatype panic = SliceBoundsOutOfRange | MakeLenOutOfRange | NilDereference | PipeCreation

datatype error =
    XPipeClosed    \<comment> \<open>\<^verbatim>\<open>errors.New("XPipe closed")\<close>\<close>
  | EOF            \<comment> \<open>\<^verbatim>\<open>io.EOF\<close>\<close>
  | ErrInvalid     \<comment> \<open>\<^verbatim>\<open>os.ErrInvalid\<close>: a method called on a nil \<^verbatim>\<open>*os.File\<close>\<close>
  | ErrClosed      \<comment> \<open>\<^verbatim>\<open>os.ErrClosed\<close>: the file was closed before\<close>
  | ErrProcessDone \<comment> \<open>\<^verbatim>\<open>os.ErrProcessDone\<close>\<close>
  | ErrProcessReleased \<comment> \<open>"os: process already released"\<close>
  | OSError nat    \<comment> \<open>any other error of the operating system, by its number\<close>

text \<open>\<^verbatim>\<open>make([]byte, n)\<close>: a zeroed slice; panics on a negative length.\<close>

definition make_bytes :: "int \<Rightarrow> panic + byte list" where
  "make_bytes n = (if n < 0 then Inl MakeLenOutOfRange else Inr (replicate (nat n) 0))"

text \<open>\<^verbatim>\<open>s[lo:]\<close> and \<^verbatim>\<open>s[lo:hi]\<close> with Go's bounds checks.\<close>

definition slice_from :: "'a list \<Rightarrow> int \<Rightarrow> panic + 'a list" where
  "slice_from s lo =
     (if 0 \<le> lo \<and> lo \<le> int (length s) then Inr (drop (nat lo) s)
      else Inl SliceBoundsOutOfRange)"

definition slice_range :: "'a list \<Rightarrow> int \<Rightarrow> int \<Rightarrow> panic + 'a list" where
  "slice_range s lo hi =
     (if 0 \<le> lo \<and> lo \<le> hi \<and> hi \<le> int (length s)
      then Inr (take (nat (hi - lo)) (drop (nat lo) s))
      else Inl SliceBoundsOutOfRange)"

text \<open>
  \<^verbatim>\<open>copy(dst, src)\<close> overwrites the first \<open>min (len dst) (len src)\<close> elements
  of \<open>dst\<close>; the result is the new content of \<open>dst\<close>. Go copies as if through a
  temporary, so the source is the value \<open>src\<close> had before the call even when the
  two slices share memory.
\<close>

definition go_copy :: "'a list \<Rightarrow> 'a list \<Rightarrow> 'a list" where
  "go_copy dst src = take (length dst) src @ drop (length src) dst"

text \<open>\<^verbatim>\<open>binary.BigEndian.PutUint32\<close> and \<^verbatim>\<open>binary.BigEndian.Uint32\<close>.\<close>

definition PutUint32 :: "uint32 \<Rightarrow> byte list" where
  "PutUint32 v = [ucast (drop_bit 24 v), ucast (drop_bit 16 v), ucast (drop_bit 8 v), ucast v]"

definition Uint32 :: "byte list \<Rightarrow> uint32" where
  "Uint32 b = ucast (b ! 3) OR push_bit 8 (ucast (b ! 2))
              OR push_bit 16 (ucast (b ! 1)) OR push_bit 24 (ucast (b ! 0))"

section \<open>The byte buffer\<close>

record buffer =
  Internal :: "byte list"
  readIndex :: int
  writeIndex :: int
  markedReadIndex :: int
  markedWriteIndex :: int

definition NewBuffer :: "int \<Rightarrow> panic + buffer" where
  "NewBuffer capacity =
     (case make_bytes capacity of
        Inl p \<Rightarrow> Inl p
      | Inr bs \<Rightarrow> Inr \<lparr>Internal = bs, readIndex = 0, writeIndex = 0,
                       markedReadIndex = 0, markedWriteIndex = 0\<rparr>)"

definition cap :: "buffer \<Rightarrow> int" where
  "cap b = int (length (Internal b))"

definition growth :: "buffer \<Rightarrow> int \<Rightarrow> panic + buffer" where
  "growth b needSize =
     (if writeIndex b + needSize > cap b then
        (let sz = 2 * cap b;
             sz = (if 0 = sz then needSize else sz)
         in case make_bytes sz of
              Inl p \<Rightarrow> Inl p
            | Inr copied \<Rightarrow> Inr (b\<lparr>Internal := go_copy copied (Internal b)\<rparr>))
      else Inr b)"

definition IsEmpty :: "buffer \<Rightarrow> bool" where
  "IsEmpty b = (readIndex b = writeIndex b)"

definition WriteableBytes :: "buffer \<Rightarrow> int" where
  "WriteableBytes b = cap b - writeIndex b"

definition ReadableBytes :: "buffer \<Rightarrow> int" where
  "ReadableBytes b = writeIndex b - readIndex b"

definition GetReadIndex :: "buffer \<Rightarrow> int" where
  "GetReadIndex b = readIndex b"

definition GetWriteIndex :: "buffer \<Rightarrow> int" where
  "GetWriteIndex b = writeIndex b"

definition SetReadIndex :: "buffer \<Rightarrow> int \<Rightarrow> buffer" where
  "SetReadIndex b index = b\<lparr>readIndex := index\<rparr>"

definition SetWriteIndex :: "buffer \<Rightarrow> int \<Rightarrow> buffer" where
  "SetWriteIndex b index = b\<lparr>writeIndex := index\<rparr>"

definition WriteBytes :: "buffer \<Rightarrow> byte list \<Rightarrow> panic + buffer" where
  "WriteBytes b bytes =
     (case growth b (int (length bytes)) of
        Inl p \<Rightarrow> Inl p
      | Inr g \<Rightarrow>
         (case slice_from (Internal g) (writeIndex g) of
            Inl p \<Rightarrow> Inl p
          | Inr dst \<Rightarrow>
              Inr (g\<lparr>Internal := take (nat (writeIndex g)) (Internal g) @ go_copy dst bytes,
                     writeIndex := writeIndex g + int (length bytes)\<rparr>)))"

definition Slice :: "buffer \<Rightarrow> int \<Rightarrow> panic + byte list" where
  "Slice b sz = slice_range (Internal b) (readIndex b) (readIndex b + sz)"

definition DiscardReadBytes :: "buffer \<Rightarrow> panic + buffer" where
  "DiscardReadBytes b =
     (case slice_range (Internal b) (readIndex b) (writeIndex b) of
        Inl p \<Rightarrow> Inl p
      | Inr src \<Rightarrow>
          Inr (b\<lparr>Internal := go_copy (Internal b) src,
                 writeIndex := writeIndex b - readIndex b,
                 readIndex := 0\<rparr>))"

section \<open>Operating-system files\<close>

text \<open>
  The program reaches the operating system through \<^verbatim>\<open>*os.File\<close> values. A file is
  modelled by what this process can observe of it: whether it was closed, the bytes
  that reads will still deliver (\<open>rd_data\<close>), how many of them each successive
  \<^verbatim>\<open>read\<close> returns at most (\<open>rd_chunks\<close>, an oracle for short reads; when it
  is used up a read fills the caller's slice), the error a read meets once the data
  is used up (\<open>rd_end\<close>, \<open>EOF\<close> when the writer has closed its end), the bytes
  accepted by writes so far (\<open>wr_sent\<close>), and an oracle for the outcomes of the next
  writes (\<open>wr_script\<close>: the number of bytes accepted and the error; when it is
  used up a write accepts everything). The data of a file is finite, so a read that
  would block for ever is not modelled. A \<^verbatim>\<open>*os.File\<close> is an index into the table
  of files, \<open>None\<close> is the nil pointer.

  \<^verbatim>\<open>File.Read\<close> returns \<open>0, nil\<close> for an empty slice, \<open>0, err\<close> at the end of
  the data and at least one byte otherwise; the methods of a nil file return
  \<^verbatim>\<open>os.ErrInvalid\<close> and those of a closed file \<^verbatim>\<open>os.ErrClosed\<close>.
\<close>

record os_file =
  file_closed :: bool
  rd_data :: "byte list"
  rd_chunks :: "nat list"
  rd_end :: error
  wr_sent :: "byte list"
  wr_script :: "(nat \<times> error option) list"

type_synonym files = "nat \<Rightarrow> os_file"

definition File_Read :: "os_file \<Rightarrow> nat \<Rightarrow> (byte list \<times> error option) \<times> os_file" where
  "File_Read f len =
     (if file_closed f then (([], Some ErrClosed), f)
      else if len = 0 then (([], None), f)
      else if rd_data f = [] then (([], Some (rd_end f)), f)
      else (let k = (case rd_chunks f of [] \<Rightarrow> len | c # _ \<Rightarrow> min len (max 1 c))
            in ((take k (rd_data f), None),
                f\<lparr>rd_data := drop k (rd_data f), rd_chunks := tl (rd_chunks f)\<rparr>)))"

definition File_Write :: "os_file \<Rightarrow> byte list \<Rightarrow> (nat \<times> error option) \<times> os_file" where
  "File_Write f b =
     (if file_closed f then ((0, Some ErrClosed), f)
      else (case wr_script f of
              [] \<Rightarrow> ((length b, None), f\<lparr>wr_sent := wr_sent f @ b\<rparr>)
            | (k, e) # rest \<Rightarrow>
                ((min k (length b), e),
                 f\<lparr>wr_sent := wr_sent f @ take k b, wr_script := rest\<rparr>)))"

definition File_Close :: "os_file \<Rightarrow> error option \<times> os_file" where
  "File_Close f =
     (if file_closed f then (Some ErrClosed, f) else (None, f\<lparr>file_closed := True\<rparr>))"

definition os_Read :: "nat option \<Rightarrow> nat \<Rightarrow> files \<Rightarrow> (byte list \<times> error option) \<times> files" where
  "os_Read file len fs =
     (case file of
        None \<Rightarrow> (([], Some ErrInvalid), fs)
      | Some fd \<Rightarrow> (case File_Read (fs fd) len of (r, f') \<Rightarrow> (r, fs(fd := f'))))"

definition os_Write :: "nat option \<Rightarrow> byte list \<Rightarrow> files \<Rightarrow> (nat \<times> error option) \<times> files" where
  "os_Write file b fs =
     (case file of
        None \<Rightarrow> ((0, Some ErrInvalid), fs)
      | Some fd \<Rightarrow> (case File_Write (fs fd) b of (r, f') \<Rightarrow> (r, fs(fd := f'))))"

definition os_Close :: "nat \<Rightarrow> files \<Rightarrow> error option \<times> files" where
  "os_Close fd fs = (case File_Close (fs fd) of (e, f') \<Rightarrow> (e, fs(fd := f')))"

section \<open>XPipe: length-prefixed frames over a pipe\<close>

text \<open>
  The methods take the table of files and return it updated. The visitor of \<open>Read\<close>
  is a Go closure; its captured variables are the state \<open>'s\<close> that the model passes
  through the calls. \<open>Read_frames\<close> is the inner loop of \<open>Read\<close> (frames already
  buffered), \<open>Read_loop\<close> the outer one (one \<^verbatim>\<open>ReadPipe.Read\<close> per turn); the
  error that \<open>Read\<close> returns is the named result \<open>err\<close>, that is, the error of the
  last \<^verbatim>\<open>ReadPipe.Read\<close>.
\<close>

record XPipe =
  closed :: "32 word"
  ReadPipe :: "nat option"
  WritePipe :: "nat option"

definition IsClosed :: "XPipe \<Rightarrow> bool" where
  "IsClosed p = (1 = closed p)"

definition Close :: "XPipe \<Rightarrow> files \<Rightarrow> error option \<times> XPipe \<times> files" where
  "Close p fs =
     (if closed p \<noteq> 0 then (None, p, fs)
      else
        (let p = p\<lparr>closed := 1\<rparr> in
         case (case ReadPipe p of
                 None \<Rightarrow> (None, p, fs)
               | Some r \<Rightarrow>
                  (case os_Close r fs of
                     (Some e, fs') \<Rightarrow> (Some e, p, fs')
                   | (None, fs') \<Rightarrow> (None, p\<lparr>ReadPipe := None\<rparr>, fs'))) of
           (Some e, p', fs') \<Rightarrow> (Some e, p', fs')
         | (None, p', fs') \<Rightarrow>
            (case WritePipe p' of
               None \<Rightarrow> (None, p', fs')
             | Some w \<Rightarrow>
                (case os_Close w fs' of
                   (Some e, fs'') \<Rightarrow> (Some e, p', fs'')
                 | (None, fs'') \<Rightarrow> (None, p'\<lparr>WritePipe := None\<rparr>, fs'')))))"

function writeEmpty :: "XPipe \<Rightarrow> byte list \<Rightarrow> files \<Rightarrow> error option \<times> files" where
  "writeEmpty p raw fs =
     (if 0 < length raw then
        (case os_Write (WritePipe p) raw fs of
           ((n, err), fs') \<Rightarrow>
             (if err \<noteq> None then (err, fs') else writeEmpty p (drop n raw) fs'))
      else (None, fs))"
  by pat_completeness auto
termination
  apply (relation "measure (\<lambda>(p, raw, fs).
         (case WritePipe p of None \<Rightarrow> 0 | Some fd \<Rightarrow> length (wr_script (fs fd))) + length raw)")
   apply simp
  apply (auto simp: os_Write_def File_Write_def split: option.splits if_splits list.splits prod.splits)
  done

definition Write :: "XPipe \<Rightarrow> byte list \<Rightarrow> files \<Rightarrow> error option \<times> files" where
  "Write p raw fs =
     (if IsClosed p then (Some XPipeClosed, fs)
      else
        (let header = PutUint32 (word_of_nat (length raw)) in
         case writeEmpty p header fs of
           (Some e, fs') \<Rightarrow> (Some e, fs')
         | (None, fs') \<Rightarrow> writeEmpty p raw fs'))"

function Read_frames ::
  "('s \<Rightarrow> byte list \<Rightarrow> bool \<times> 's) \<Rightarrow> bool \<Rightarrow> 's \<Rightarrow> buffer \<Rightarrow> panic + (bool \<times> 's \<times> buffer)" where
  "Read_frames callback flag s readBuf =
     (if 4 \<le> ReadableBytes readBuf then
        (case Slice readBuf 4 of
           Inl e \<Rightarrow> Inl e
         | Inr header \<Rightarrow>
            (let chunkSize = uint (Uint32 header) in
             if chunkSize + 4 > ReadableBytes readBuf then Inr (flag, s, readBuf)
             else
               (let b1 = SetReadIndex readBuf (GetReadIndex readBuf + 4) in
                case Slice b1 chunkSize of
                  Inl e \<Rightarrow> Inl e
                | Inr data \<Rightarrow>
                   (case callback s data of
                      (flag', s') \<Rightarrow>
                        if \<not> flag' then Inr (flag', s', b1)
                        else
                          (case DiscardReadBytes (SetReadIndex b1 (GetReadIndex b1 + chunkSize)) of
                             Inl e \<Rightarrow> Inl e
                           | Inr b2 \<Rightarrow> Read_frames callback flag' s' b2)))))
      else Inr (flag, s, readBuf))"
  by pat_completeness auto
termination
  apply (relation "measure (\<lambda>(callback, flag, s, readBuf). nat (ReadableBytes readBuf))")
   apply simp
  apply (auto simp: ReadableBytes_def DiscardReadBytes_def SetReadIndex_def GetReadIndex_def
      split: sum.splits)
  apply (metis uint_ge_0 less_le_trans neg_less_0_iff_less zero_less_numeral)
  done

function Read_loop ::
  "('s \<Rightarrow> byte list \<Rightarrow> bool \<times> 's) \<Rightarrow> 's \<Rightarrow> buffer \<Rightarrow> nat option \<Rightarrow> files
     \<Rightarrow> panic + (error option \<times> 's \<times> files)" where
  "Read_loop callback s readBuf file fs =
     (case slice_from (Internal readBuf) (GetWriteIndex readBuf) of
        Inl e \<Rightarrow> Inl e
      | Inr dst \<Rightarrow>
         (case os_Read file (length dst) fs of
            ((got, err), fs') \<Rightarrow>
              if err \<noteq> None \<and> err \<noteq> Some EOF then Inr (err, s, fs')
              else
                (let flag = (err = None) in
                 if 0 \<ge> length got then Inr (err, s, fs')
                 else
                   (let b1 = SetWriteIndex
                               (readBuf\<lparr>Internal := take (nat (GetWriteIndex readBuf)) (Internal readBuf)
                                                     @ go_copy dst got\<rparr>)
                               (GetWriteIndex readBuf + int (length got)) in
                    case Read_frames callback flag s b1 of
                      Inl e \<Rightarrow> Inl e
                    | Inr (flag', s', b2) \<Rightarrow>
                        if flag' then Read_loop callback s' b2 file fs'
                        else Inr (err, s', fs')))))"
  by pat_completeness auto
termination
  apply (relation "measure (\<lambda>(callback, s, readBuf, file, fs).
           (case file of None \<Rightarrow> 0 | Some fd \<Rightarrow> length (rd_data (fs fd))))")
   apply simp
  apply (auto simp: os_Read_def File_Read_def Let_def split: option.splits if_splits prod.splits)
  done

definition Read ::
  "XPipe \<Rightarrow> ('s \<Rightarrow> byte list \<Rightarrow> bool \<times> 's) \<Rightarrow> 's \<Rightarrow> files
     \<Rightarrow> panic + (error option \<times> 's \<times> files)" where
  "Read p callback s fs =
     (if IsClosed p then Inr (Some XPipeClosed, s, fs)
      else
        (case NewBuffer (2 ^ 16) of
           Inl e \<Rightarrow> Inl e
         | Inr readBuf \<Rightarrow> Read_loop callback s readBuf (ReadPipe p) fs))"

declare writeEmpty.simps [simp del]
declare Read_frames.simps [simp del]
declare Read_loop.simps [simp del]

section \<open>Observations and scenarios for the pipe\<close>

text \<open>The bytes that the operating system has accepted on the write half of a pipe.\<close>

definition delivered :: "XPipe \<Rightarrow> files \<Rightarrow> byte list" where
  "delivered p fs = (case WritePipe p of None \<Rightarrow> [] | Some fd \<Rightarrow> wr_sent (fs fd))"

text \<open>An open file with no data to read, at whose end stands \<open>EOF\<close>, and which accepts every write.\<close>

definition fresh_file :: os_file where
  "fresh_file = \<lparr>file_closed = False, rd_data = [], rd_chunks = [], rd_end = EOF,
                  wr_sent = [], wr_script = []\<rparr>"

text \<open>\<open>Close\<close> called \<open>n\<close> times in a row, with the error of each call.\<close>

primrec Close_times :: "nat \<Rightarrow> XPipe \<Rightarrow> files \<Rightarrow> error option list \<times> XPipe \<times> files" where
  "Close_times 0 p fs = ([], p, fs)"
| "Close_times (Suc n) p fs =
     (case Close p fs of
        (e, p', fs') \<Rightarrow> (case Close_times n p' fs' of (es, p'', fs'') \<Rightarrow> (e # es, p'', fs'')))"

text \<open>
  The half-pipes of \<open>p\<close> are nil or open files, and two distinct files: the operating
  system closes them without error.
\<close>

definition closes_cleanly :: "XPipe \<Rightarrow> files \<Rightarrow> bool" where
  "closes_cleanly p fs =
     ((case ReadPipe p of None \<Rightarrow> True | Some r \<Rightarrow> \<not> file_closed (fs r))
      \<and> (case WritePipe p of None \<Rightarrow> True | Some w \<Rightarrow> \<not> file_closed (fs w) \<and> ReadPipe p \<noteq> Some w))"

text \<open>The table of files once both half-pipes of \<open>p\<close> are closed.\<close>

definition closed_files :: "XPipe \<Rightarrow> files \<Rightarrow> files" where
  "closed_files p fs =
     (\<lambda>fd. if ReadPipe p = Some fd \<or> WritePipe p = Some fd then (fs fd)\<lparr>file_closed := True\<rparr>
           else fs fd)"

text \<open>A table in which file \<open>1\<close> accepts the next writes one byte, no byte and two bytes at a time.\<close>

definition short_writes :: files where
  "short_writes = (\<lambda>_. fresh_file)(1 := fresh_file\<lparr>wr_script := [(1, None), (0, None), (2, None)]\<rparr>)"

section \<open>Frames and what a reader should see\<close>

text \<open>
  A frame is the header followed by the payload. \<open>visit\<close> is the sequence of visitor
  calls on a list of payloads: in order, until the visitor answers \<open>False\<close>; it
  returns the last answer and the visitor's state. \<open>incomplete t\<close> says that the
  bytes \<open>t\<close> do not start with a whole frame, and \<open>holds b pre\<close> that the readable
  bytes of the buffer \<open>b\<close>, compacted, are \<open>pre\<close>.
\<close>

definition frame :: "byte list \<Rightarrow> byte list" where
  "frame b = PutUint32 (word_of_nat (length b)) @ b"

fun visit :: "('s \<Rightarrow> byte list \<Rightarrow> bool \<times> 's) \<Rightarrow> 's \<Rightarrow> byte list list \<Rightarrow> bool \<times> 's" where
  "visit callback s [] = (True, s)"
| "visit callback s (f # fs) =
     (case callback s f of (flag, s') \<Rightarrow> if flag then visit callback s' fs else (False, s'))"

definition incomplete :: "byte list \<Rightarrow> bool" where
  "incomplete t = (length t < 4 \<or> int (length t) < uint (Uint32 t) + 4)"

definition holds :: "buffer \<Rightarrow> byte list \<Rightarrow> bool" where
  "holds b pre = (readIndex b = 0 \<and> writeIndex b = int (length pre)
                  \<and> length pre \<le> length (Internal b) \<and> take (length pre) (Internal b) = pre)"

section \<open>Writing frames and reading them back\<close>

text \<open>
  \<open>collect\<close> is the visitor that records each payload it is given and asks for more.
  \<open>Write_all\<close> writes payloads back to back and stops at the first error.
  \<open>pipe_carry w r\<close> is the operating system's part of a pipe: the bytes accepted on
  the write half \<open>w\<close> are what the read half \<open>r\<close> delivers, followed by end of file.
\<close>

definition collect :: "byte list list \<Rightarrow> byte list \<Rightarrow> bool \<times> byte list list" where
  "collect seen data = (True, seen @ [data])"

primrec Write_all :: "XPipe \<Rightarrow> byte list list \<Rightarrow> files \<Rightarrow> error option \<times> files" where
  "Write_all p [] fs = (None, fs)"
| "Write_all p (b # bs) fs =
     (case Write p b fs of
        (Some e, fs') \<Rightarrow> (Some e, fs')
      | (None, fs') \<Rightarrow> Write_all p bs fs')"

definition pipe_carry :: "nat \<Rightarrow> nat \<Rightarrow> files \<Rightarrow> files" where
  "pipe_carry w r fs = fs(r := (fs r)\<lparr>rd_data := wr_sent (fs w), rd_end := EOF\<rparr>)"

section \<open>Child processes: XCmd\<close>

text \<open>
  An \<open>XCmd\<close> is a child process with its two control pipes: the parent reads what
  the child sends from \<open>readPipe\<close> and writes to the child on \<open>writePipe\<close>. The
  \<^verbatim>\<open>*XCmd\<close> values of the program are addresses into a table of \<open>XCmd\<close>
  objects (\<open>xcmds\<close>); the new child and the installed child are two objects of
  that table. The \<open>world\<close> holds what lies outside the \<open>Daemon\<close> value: the files,
  the \<open>XCmd\<close> objects, and the answers of the operating system to calls yet to
  come: \<open>pipe_error\<close> for \<^verbatim>\<open>os.Pipe\<close> and \<open>start_error\<close> for \<^verbatim>\<open>Cmd.Start\<close>.
  What a child will send is the data of the read half of its pipe, present in the
  table of files before the pipe is created. Of a process the model keeps that it
  was sent the kill signal, waited for, or released. The argument vector, the
  standard streams and the numbering of the listener files in the child do not
  bear on any property proved here; of \<open>spawnChildProcess\<close> the model keeps the
  creation of the pipes, \<open>AddFile\<close> for every listener, and \<open>Start\<close>.
\<close>

record os_process =
  Pid :: nat
  killed :: bool
  waited :: bool
  released :: bool

record XCmd =
  Process :: "os_process option"
  nextFd :: int
  readPipe :: "XPipe option"
  writePipe :: "XPipe option"

record world =
  files :: files
  next_file :: nat
  pipe_error :: "nat \<Rightarrow> error option"
  xcmds :: "nat \<Rightarrow> XCmd"
  next_xcmd :: nat
  start_error :: "nat \<Rightarrow> error option"

definition NewXPipe :: "world \<Rightarrow> panic + (XPipe \<times> world)" where
  "NewXPipe w =
     (case pipe_error w (next_file w) of
        Some e \<Rightarrow> Inl PipeCreation
      | None \<Rightarrow>
          Inr (\<lparr>closed = 0, ReadPipe = Some (next_file w), WritePipe = Some (next_file w + 1)\<rparr>,
               w\<lparr>next_file := next_file w + 2\<rparr>))"

definition NewXCmd :: "world \<Rightarrow> panic + (nat \<times> world)" where
  "NewXCmd w =
     (case NewXPipe w of
        Inl p \<Rightarrow> Inl p
      | Inr (rp, w1) \<Rightarrow>
         (case NewXPipe w1 of
            Inl p \<Rightarrow> Inl p
          | Inr (wp, w2) \<Rightarrow>
              Inr (next_xcmd w2,
                   w2\<lparr>xcmds := (xcmds w2)(next_xcmd w2 :=
                          \<lparr>Process = None, nextFd = 2 + 2, readPipe = Some rp, writePipe = Some wp\<rparr>),
                      next_xcmd := next_xcmd w2 + 1\<rparr>)))"

definition XCmd_Close :: "XCmd \<Rightarrow> files \<Rightarrow> error option \<times> XCmd \<times> files" where
  "XCmd_Close x fs =
     (case (case readPipe x of
              None \<Rightarrow> (None, x, fs)
            | Some p \<Rightarrow> (case Close p fs of (e, p', fs') \<Rightarrow> (e, x\<lparr>readPipe := Some p'\<rparr>, fs'))) of
        (err, x1, fs1) \<Rightarrow>
          (case writePipe x1 of
             None \<Rightarrow> (err, x1, fs1)
           | Some p \<Rightarrow>
              (case Close p fs1 of
                 (e, p', fs2) \<Rightarrow>
                   (if err = None \<and> e \<noteq> None then e else err, x1\<lparr>writePipe := Some p'\<rparr>, fs2))))"

definition NextFd :: "XCmd \<Rightarrow> int" where
  "NextFd x = nextFd x"

definition AddFile :: "XCmd \<Rightarrow> XCmd" where
  "AddFile x = x\<lparr>nextFd := nextFd x + 1\<rparr>"

definition ParentWrite :: "XCmd \<Rightarrow> byte list \<Rightarrow> files \<Rightarrow> panic + (error option \<times> files)" where
  "ParentWrite x raw fs =
     (case writePipe x of None \<Rightarrow> Inl NilDereference | Some p \<Rightarrow> Inr (Write p raw fs))"

definition ParentRead ::
  "XCmd \<Rightarrow> ('s \<Rightarrow> byte list \<Rightarrow> bool \<times> 's) \<Rightarrow> 's \<Rightarrow> files \<Rightarrow> panic + (error option \<times> 's \<times> files)" where
  "ParentRead x callback s fs =
     (case readPipe x of None \<Rightarrow> Inl NilDereference | Some p \<Rightarrow> Read p callback s fs)"

definition Process_Kill :: "os_process \<Rightarrow> error option \<times> os_process" where
  "Process_Kill pr =
     (if released pr then (Some ErrProcessReleased, pr)
      else if waited pr then (Some ErrProcessDone, pr)
      else (None, pr\<lparr>killed := True\<rparr>))"

definition Start :: "nat \<Rightarrow> world \<Rightarrow> error option \<times> world" where
  "Start c w =
     (case start_error w c of
        Some e \<Rightarrow> (Some e, w)
      | None \<Rightarrow>
         (None, w\<lparr>xcmds := (xcmds w)(c := (xcmds w c)
                   \<lparr>Process := Some \<lparr>Pid = c, killed = False, waited = False, released = False\<rparr>\<rparr>)\<rparr>))"

section \<open>The supervisor\<close>

text \<open>
  The messages of the control channel, as the bytes of their text.
\<close>

definition bytes_of :: "string \<Rightarrow> byte list" where
  "bytes_of str = map (\<lambda>c. of_nat (of_char c)) str"

definition ReadyOK :: "byte list" where "ReadyOK = bytes_of ''ReadyOK''"
definition ReadyError :: "byte list" where "ReadyError = bytes_of ''ReadyError''"
definition ExitRequest :: "byte list" where "ExitRequest = bytes_of ''Exit''"
definition ExitReply :: "byte list" where "ExitReply = ExitRequest"

text \<open>
  The \<open>Daemon\<close> of the current sources. \<open>locked\<close> is the embedded mutex, \<open>wg\<close> the
  counter of the wait group. Go's \<^verbatim>\<open>int\<close> is taken to be 64 bits wide, so
  \<open>rebootTimes\<close> is a 64-bit word read as a signed number, and the decrement wraps
  around as Go's does. The two flags are \<^verbatim>\<open>int32\<close> values changed by
  compare-and-swap.
\<close>

record Daemon =
  locked :: bool
  rebootTimes :: "64 word"
  upgradeFlag :: "32 word"
  killedFlag :: "32 word"
  origArgs :: "string list"
  wg :: int
  xCmdObj :: "nat option"
  childCmd :: string
  upgradeCmd :: string
  bootstrapArgs :: string
  bootstrapLogDir :: string
  pidFile :: string

definition New :: "string \<Rightarrow> string \<Rightarrow> string \<Rightarrow> string \<Rightarrow> string \<Rightarrow> Daemon" where
  "New childCmd' upgradeCmd' bootstrapArgs' bootstrapLogDir' pidFile' =
     \<lparr>locked = False, rebootTimes = 3, upgradeFlag = 0, killedFlag = 0, origArgs = [], wg = 0,
      xCmdObj = None, childCmd = childCmd', upgradeCmd = upgradeCmd',
      bootstrapArgs = bootstrapArgs', bootstrapLogDir = bootstrapLogDir', pidFile = pidFile'\<rparr>"

definition Default :: Daemon where
  "Default = New ''child'' ''upgrade'' ''bootstrap_args'' ''bootstrapLogs'' ''daemonPID''"

text \<open>
  How a call ends: it returns, or the process exits through \<^verbatim>\<open>os.Exit\<close>, or
  panics, or blocks for ever on the mutex it already holds. Each carries the state
  reached.
\<close>

datatype 'a outcome =
    Returns 'a Daemon world
  | Exits int Daemon world
  | Panics panic Daemon world
  | Deadlock Daemon world

definition spawnChildProcess ::
  "Daemon \<Rightarrow> (string \<times> nat) list \<Rightarrow> world \<Rightarrow> panic + ((nat \<times> error option) \<times> world)" where
  "spawnChildProcess d tcpLnFiles w =
     (case NewXCmd w of
        Inl p \<Rightarrow> Inl p
      | Inr (xCmdObj', w1) \<Rightarrow>
         (let w2 = w1\<lparr>xcmds := (xcmds w1)(xCmdObj' :=
                        fold (\<lambda>kf x. AddFile x) tcpLnFiles (xcmds w1 xCmdObj'))\<rparr>
          in case Start xCmdObj' w2 of (err, w3) \<Rightarrow> Inr ((xCmdObj', err), w3)))"

definition readyCallback :: "bool \<Rightarrow> byte list \<Rightarrow> bool \<times> bool" where
  "readyCallback ok raw =
     (if raw = ReadyOK then (False, True)
      else if raw = ReadyError then (False, ok)
      else (True, ok))"

definition exitCallback :: "unit \<Rightarrow> byte list \<Rightarrow> bool \<times> unit" where
  "exitCallback u raw =
     (if 0 \<ge> length raw then (False, u)
      else if raw = ExitReply then (False, u)
      else (True, u))"

definition waitChildSafeExit :: "Daemon \<Rightarrow> world \<Rightarrow> panic + (error option \<times> world)" where
  "waitChildSafeExit d w =
     (case xCmdObj d of
        None \<Rightarrow> Inr (None, w)
      | Some c \<Rightarrow>
         (case ParentWrite (xcmds w c) ExitRequest (files w) of
            Inl p \<Rightarrow> Inl p
          | Inr (Some e, fs) \<Rightarrow> Inr (Some e, w\<lparr>files := fs\<rparr>)
          | Inr (None, fs) \<Rightarrow>
             (case ParentRead (xcmds w c) exitCallback () fs of
                Inl p \<Rightarrow> Inl p
              | Inr (err, u, fs') \<Rightarrow> Inr (err, w\<lparr>files := fs'\<rparr>))))"

text \<open>
  \<open>replaceChildProcess\<close> ends by installing the new child, adding one to the wait
  group and starting a goroutine that waits for the child to exit. The model is
  sequential. The goroutine is pending until the child exits; its body, from the
  return of \<^verbatim>\<open>Wait\<close> on, is \<open>waitGoroutine\<close>, run as one step when the child
  exits (the event \<open>ChildExit\<close> below) or, inside \<^verbatim>\<open>wg.Wait()\<close>, right after
  the child was killed. \<open>installChild\<close> is the tail of \<open>replaceChildProcess\<close>:
  the assignment, \<^verbatim>\<open>wg.Add(1)\<close> and the deferred \<^verbatim>\<open>Unlock\<close>. A goroutine only
  runs after \<^verbatim>\<open>wg.Add(1)\<close>, so the counter is positive when it ends.
\<close>

definition installChild :: "nat \<Rightarrow> error option \<Rightarrow> Daemon \<Rightarrow> world \<Rightarrow> (bool \<times> error option) outcome" where
  "installChild newXCmdObj err d w =
     Returns (True, err) (d\<lparr>xCmdObj := Some newXCmdObj, wg := wg d + 1, locked := False\<rparr>) w"

function replaceChildProcess ::
    "Daemon \<Rightarrow> (string \<times> nat) list \<Rightarrow> world \<Rightarrow> (bool \<times> error option) outcome"
  and waitGoroutine :: "Daemon \<Rightarrow> (string \<times> nat) list \<Rightarrow> world \<Rightarrow> unit outcome"
where
  "replaceChildProcess d tcpLnFiles w =
     (if locked d then Deadlock d w
      else
        (let d = d\<lparr>locked := True\<rparr> in
         case spawnChildProcess d tcpLnFiles w of
           Inl p \<Rightarrow> Panics p d w
         | Inr ((newXCmdObj, err), w) \<Rightarrow>
            if err \<noteq> None then Returns (False, err) (d\<lparr>locked := False\<rparr>) w
            else
              (case ParentRead (xcmds w newXCmdObj) readyCallback False (files w) of
                 Inl p \<Rightarrow> Panics p d w
               | Inr (err, ok, fs) \<Rightarrow>
                  (let w = w\<lparr>files := fs\<rparr> in
                   if \<not> ok then
                     (case XCmd_Close (xcmds w newXCmdObj) (files w) of
                        (e, x, fs) \<Rightarrow>
                          Returns (False, err) (d\<lparr>locked := False\<rparr>)
                            (w\<lparr>xcmds := (xcmds w)(newXCmdObj := x), files := fs\<rparr>))
                   else
                     (case xCmdObj d of
                        None \<Rightarrow> installChild newXCmdObj err d w
                      | Some old \<Rightarrow>
                         (case waitChildSafeExit d w of
                            Inl p \<Rightarrow> Panics p d w
                          | Inr (err, w) \<Rightarrow>
                             (case Process (xcmds w old) of
                                None \<Rightarrow> Panics NilDereference d w
                              | Some pr \<Rightarrow>
                                 (let w = w\<lparr>xcmds := (xcmds w)(old := (xcmds w old)
                                             \<lparr>Process := Some (snd (Process_Kill pr))\<rparr>)\<rparr> in
                                  case (if 0 < wg d then waitGoroutine d tcpLnFiles w
                                        else Returns () d w) of
                                    Returns u d w \<Rightarrow>
                                      (case xCmdObj d of
                                         None \<Rightarrow> Panics NilDereference d w
                                       | Some old \<Rightarrow>
                                          (case XCmd_Close (xcmds w old) (files w) of
                                             (e, x, fs) \<Rightarrow>
                                               installChild newXCmdObj err (d\<lparr>xCmdObj := None\<rparr>)
                                                 (w\<lparr>xcmds := (xcmds w)(old := x), files := fs\<rparr>)))
                                  | Exits n d w \<Rightarrow> Exits n d w
                                  | Panics p d w \<Rightarrow> Panics p d w
                                  | Deadlock d w \<Rightarrow> Deadlock d w))))))))"
| "waitGoroutine d tcpLnFiles w =
     (case xCmdObj d of
        None \<Rightarrow> Panics NilDereference d w
      | Some c \<Rightarrow>
         (let w = w\<lparr>xcmds := (xcmds w)(c := (xcmds w c)
                     \<lparr>Process := map_option (\<lambda>pr. pr\<lparr>waited := True\<rparr>) (Process (xcmds w c))\<rparr>)\<rparr> in
          if upgradeFlag d = 1 then
            (let d = d\<lparr>upgradeFlag := 0\<rparr> in
             case Process (xcmds w c) of
               None \<Rightarrow> Panics NilDereference d w
             | Some pr \<Rightarrow> Returns () (d\<lparr>wg := wg d - 1\<rparr>) w)
          else if 0 = killedFlag d then
            (let d = d\<lparr>rebootTimes := rebootTimes d - 1\<rparr> in
             case Process (xcmds w c) of
               None \<Rightarrow> Panics NilDereference d w
             | Some pr \<Rightarrow>
                if 0 > sint (rebootTimes d) then Exits (- 1) d w
                else
                  (let w = w\<lparr>xcmds := (xcmds w)(c := (xcmds w c)
                              \<lparr>Process := Some (pr\<lparr>released := True\<rparr>)\<rparr>)\<rparr> in
                   case XCmd_Close (xcmds w c) (files w) of
                     (e, x, fs) \<Rightarrow>
                       (let w = w\<lparr>xcmds := (xcmds w)(c := x), files := fs\<rparr>;
                            d = d\<lparr>xCmdObj := None\<rparr> in
                        case replaceChildProcess d tcpLnFiles w of
                          Returns r d w \<Rightarrow> Returns () (d\<lparr>wg := wg d - 1\<rparr>) w
                        | Exits n d w \<Rightarrow> Exits n d w
                        | Panics p d w \<Rightarrow> Panics p d w
                        | Deadlock d w \<Rightarrow> Deadlock d w)))
          else
            (case Process (xcmds w c) of
               None \<Rightarrow> Panics NilDereference d w
             | Some pr \<Rightarrow> Returns () (d\<lparr>wg := wg d - 1\<rparr>) w)))"
  by pat_completeness auto
termination
  apply (relation "measure (\<lambda>x. case x of
            Inl (d, t, w) \<Rightarrow> (if locked d then 0 else 2)
          | Inr (d, t, w) \<Rightarrow> (if locked d then 1 else 3))")
    apply simp_all
  done

declare replaceChildProcess.simps [simp del]
declare waitGoroutine.simps [simp del]

text \<open>
  The parent role of \<open>Bootstrap\<close>: \<open>Bootstrap_parent\<close> is the part before the signal
  loop, from the assignment of \<open>rebootTimes\<close> on (its first argument is the value
  of the flag \<^verbatim>\<open>--reboot_times\<close>, \<open>None\<close> when the flag is not given; its third
  the result of binding the listeners), \<open>Bootstrap_signal\<close> one turn of the loop.
  The state of the parent is its \<open>status\<close>, the \<open>Daemon\<close>, the world, the variable
  \<open>err\<close> (\<open>err_var\<close>) that \<open>Bootstrap\<close> returns, the \<open>XCmd\<close> whose \<open>Close\<close> is deferred, and
  the listener files. \<open>step\<close> takes the next event, a signal or the exit of the
  current child, and \<open>run\<close> a list of events.
\<close>

datatype signal = SIGINT | SIGTERM | SIGUSR2 | SIGOTHER nat

datatype status =
    InLoop
  | Returned "error option"
  | Exited int
  | Panicked panic
  | Deadlocked

record parent =
  status :: status
  daemon :: Daemon
  os_world :: world
  err_var :: "error option"
  deferred :: "nat option"
  listeners :: "(string \<times> nat) list"

definition deferredClose :: "nat option \<Rightarrow> world \<Rightarrow> world" where
  "deferredClose c w =
     (case c of
        None \<Rightarrow> w
      | Some c \<Rightarrow>
         (case XCmd_Close (xcmds w c) (files w) of
            (e, x, fs) \<Rightarrow> w\<lparr>xcmds := (xcmds w)(c := x), files := fs\<rparr>))"

definition Bootstrap_return :: "error option \<Rightarrow> Daemon \<Rightarrow> world \<Rightarrow> parent \<Rightarrow> parent" where
  "Bootstrap_return e d w st =
     st\<lparr>status := Returned e, daemon := d, os_world := deferredClose (deferred st) w, err_var := e\<rparr>"

definition stopped :: "'a outcome \<Rightarrow> parent \<Rightarrow> parent" where
  "stopped r st =
     (case r of
        Returns x d w \<Rightarrow> st\<lparr>daemon := d, os_world := w\<rparr>
      | Exits n d w \<Rightarrow> st\<lparr>status := Exited n, daemon := d, os_world := w\<rparr>
      | Panics p d w \<Rightarrow> st\<lparr>status := Panicked p, daemon := d, os_world := w\<rparr>
      | Deadlock d w \<Rightarrow> st\<lparr>status := Deadlocked, daemon := d, os_world := w\<rparr>)"

definition Bootstrap_parent ::
  "64 word option \<Rightarrow> string list \<Rightarrow> error + (string \<times> nat) list \<Rightarrow> Daemon \<Rightarrow> world \<Rightarrow> parent" where
  "Bootstrap_parent reboot_times args listen d w =
     (let rebootTimes' = (case reboot_times of None \<Rightarrow> 3 | Some n \<Rightarrow> n);
          d = d\<lparr>rebootTimes := rebootTimes', origArgs := args\<rparr>;
          st = \<lparr>status = InLoop, daemon = d, os_world = w, err_var = None, deferred = None, listeners = []\<rparr>
      in case listen of
           Inl e \<Rightarrow> Bootstrap_return (Some e) d w st
         | Inr tcpLnFiles \<Rightarrow>
            (let st = st\<lparr>listeners := tcpLnFiles\<rparr> in
             case replaceChildProcess d tcpLnFiles w of
               Returns (ok, e) d w \<Rightarrow>
                 if \<not> ok then Bootstrap_return e d w st
                 else if e \<noteq> None then Bootstrap_return e d w st
                 else st\<lparr>daemon := d, os_world := w, err_var := e, deferred := xCmdObj d\<rparr>
             | r \<Rightarrow> stopped r st))"

definition Bootstrap_signal :: "signal \<Rightarrow> parent \<Rightarrow> parent" where
  "Bootstrap_signal s st =
     (let d = daemon st; w = os_world st in
      if s = SIGINT \<or> s = SIGTERM then
        (let d = d\<lparr>killedFlag := 1\<rparr> in
         case waitChildSafeExit d w of
           Inl p \<Rightarrow> stopped (Panics p d w :: unit outcome) st
         | Inr (e, w) \<Rightarrow>
            (case xCmdObj d of
               None \<Rightarrow> stopped (Panics NilDereference d w :: unit outcome) st
             | Some c \<Rightarrow>
                (case Process (xcmds w c) of
                   None \<Rightarrow> stopped (Panics NilDereference d w :: unit outcome) st
                 | Some pr \<Rightarrow>
                    (let e = fst (Process_Kill pr);
                         w = w\<lparr>xcmds := (xcmds w)(c := (xcmds w c)
                                 \<lparr>Process := Some (snd (Process_Kill pr))\<rparr>)\<rparr> in
                     case (if 0 < wg d then waitGoroutine d (listeners st) w else Returns () d w) of
                       Returns u d w \<Rightarrow> Bootstrap_return e d w st
                     | r \<Rightarrow> stopped r st))))
      else if s = SIGUSR2 then
        (if upgradeFlag d \<noteq> 0 then Bootstrap_return (err_var st) d w st
         else
           (let d = d\<lparr>upgradeFlag := 1\<rparr> in
            case replaceChildProcess d (listeners st) w of
              Returns (ok, e) d w \<Rightarrow>
                if \<not> ok \<or> e \<noteq> None then Bootstrap_return e d w st
                else st\<lparr>daemon := d, os_world := w, err_var := e\<rparr>
            | r \<Rightarrow> stopped r st))
      else st)"

datatype event = Signal signal | ChildExit

definition step :: "event \<Rightarrow> parent \<Rightarrow> parent" where
  "step e st =
     (if status st \<noteq> InLoop then st
      else case e of
             Signal s \<Rightarrow> Bootstrap_signal s st
           | ChildExit \<Rightarrow>
               if 0 < wg (daemon st)
               then stopped (waitGoroutine (daemon st) (listeners st) (os_world st)) st
               else st)"

primrec run :: "event list \<Rightarrow> parent \<Rightarrow> parent" where
  "run [] st = st"
| "run (e # es) st = run es (step e st)"

section \<open>The supervisor of the earlier sources\<close>

text \<open>
  The sources hold an earlier \<open>Bootstrap\<close> as well, which spawns, waits for
  readiness and replaces the child inside the signal loop. Its \<open>Daemon\<close> has no
  \<open>rebootTimes\<close> and no \<open>upgradeFlag\<close>; the model uses the same record and leaves
  those fields alone.
\<close>

definition waitGoroutine_v1 :: "Daemon \<Rightarrow> world \<Rightarrow> unit outcome" where
  "waitGoroutine_v1 d w =
     (case xCmdObj d of
        None \<Rightarrow> Panics NilDereference d w
      | Some c \<Rightarrow>
         (let w = w\<lparr>xcmds := (xcmds w)(c := (xcmds w c)
                     \<lparr>Process := map_option (\<lambda>pr. pr\<lparr>waited := True\<rparr>) (Process (xcmds w c))\<rparr>)\<rparr> in
          case Process (xcmds w c) of
            None \<Rightarrow> Panics NilDereference d w
          | Some pr \<Rightarrow> Returns () (d\<lparr>wg := wg d - 1\<rparr>) w))"

definition Bootstrap_v1_parent ::
  "string list \<Rightarrow> error + (string \<times> nat) list \<Rightarrow> Daemon \<Rightarrow> world \<Rightarrow> parent" where
  "Bootstrap_v1_parent args listen d w =
     (let d = d\<lparr>origArgs := args\<rparr>;
          st = \<lparr>status = InLoop, daemon = d, os_world = w, err_var = None, deferred = None, listeners = []\<rparr>
      in case listen of
           Inl e \<Rightarrow> Bootstrap_return (Some e) d w st
         | Inr tcpLnFiles \<Rightarrow>
            (let st = st\<lparr>listeners := tcpLnFiles\<rparr> in
             case spawnChildProcess d tcpLnFiles w of
               Inl p \<Rightarrow> stopped (Panics p d w :: unit outcome) st
             | Inr ((c, e), w) \<Rightarrow>
                (let d = d\<lparr>xCmdObj := Some c\<rparr> in
                 if e \<noteq> None then Bootstrap_return e d w st
                 else
                   (let st = st\<lparr>deferred := Some c\<rparr> in
                    case ParentRead (xcmds w c) readyCallback False (files w) of
                      Inl p \<Rightarrow> stopped (Panics p d w :: unit outcome) st
                    | Inr (e, ok, fs) \<Rightarrow>
                       (let w = w\<lparr>files := fs\<rparr> in
                        if \<not> ok then Bootstrap_return e d w st
                        else st\<lparr>daemon := d\<lparr>wg := wg d + 1\<rparr>, os_world := w, err_var := e\<rparr>)))))"

definition Bootstrap_v1_signal :: "signal \<Rightarrow> parent \<Rightarrow> parent" where
  "Bootstrap_v1_signal s st =
     (let d = daemon st; w = os_world st in
      if s = SIGINT \<or> s = SIGTERM then
        (let d = d\<lparr>killedFlag := 1\<rparr> in
         case xCmdObj d of
           None \<Rightarrow> stopped (Panics NilDereference d w :: unit outcome) st
         | Some c \<Rightarrow>
            (case Process (xcmds w c) of
               None \<Rightarrow> stopped (Panics NilDereference d w :: unit outcome) st
             | Some pr \<Rightarrow>
                (let e = fst (Process_Kill pr);
                     w = w\<lparr>xcmds := (xcmds w)(c := (xcmds w c)
                             \<lparr>Process := Some (snd (Process_Kill pr))\<rparr>)\<rparr> in
                 case (if 0 < wg d then waitGoroutine_v1 d w else Returns () d w) of
                   Returns u d w \<Rightarrow> Bootstrap_return e d w st
                 | r \<Rightarrow> stopped r st)))
      else if s = SIGUSR2 then
        (case spawnChildProcess d (listeners st) w of
           Inl p \<Rightarrow> stopped (Panics p d w :: unit outcome) st
         | Inr ((newXCmdObj, e), w) \<Rightarrow>
            if e \<noteq> None then Bootstrap_return e d w st
            else
              (case xCmdObj d of
                 None \<Rightarrow> stopped (Panics NilDereference d w :: unit outcome) st
               | Some old \<Rightarrow>
                  (case ParentRead (xcmds w old) readyCallback False (files w) of
                     Inl p \<Rightarrow> stopped (Panics p d w :: unit outcome) st
                   | Inr (e, ok, fs) \<Rightarrow>
                      (let w = w\<lparr>files := fs\<rparr> in
                       if \<not> ok then Bootstrap_return e d w st
                       else
                         (case Process (xcmds w old) of
                            None \<Rightarrow> stopped (Panics NilDereference d w :: unit outcome) st
                          | Some pr \<Rightarrow>
                             (let w = w\<lparr>xcmds := (xcmds w)(old := (xcmds w old)
                                         \<lparr>Process := Some (snd (Process_Kill pr))\<rparr>)\<rparr> in
                              case (if 0 < wg d then waitGoroutine_v1 d w else Returns () d w) of
                                Returns u d w \<Rightarrow>
                                  (case xCmdObj d of
                                     None \<Rightarrow> stopped (Panics NilDereference d w :: unit outcome) st
                                   | Some old \<Rightarrow>
                                      (case XCmd_Close (xcmds w old) (files w) of
                                         (e', x, fs) \<Rightarrow>
                                           st\<lparr>daemon := d\<lparr>xCmdObj := Some newXCmdObj, wg := wg d + 1\<rparr>,
                                              os_world := w\<lparr>xcmds := (xcmds w)(old := x), files := fs\<rparr>,
                                              err_var := e\<rparr>))
                              | r \<Rightarrow> stopped r st))))))
      else st)"

definition step_v1 :: "event \<Rightarrow> parent \<Rightarrow> parent" where
  "step_v1 e st =
     (if status st \<noteq> InLoop then st
      else case e of
             Signal s \<Rightarrow> Bootstrap_v1_signal s st
           | ChildExit \<Rightarrow>
               if 0 < wg (daemon st)
               then stopped (waitGoroutine_v1 (daemon st) (os_world st)) st
               else st)"

primrec run_v1 :: "event list \<Rightarrow> parent \<Rightarrow> parent" where
  "run_v1 [] st = st"
| "run_v1 (e # es) st = run_v1 es (step_v1 e st)"

section \<open>Scenarios for the supervisor\<close>

text \<open>
  \<open>boot_world up0 chunks0 up1 up2\<close> is a world before the first spawn in which
  every call of the operating system succeeds and the first, second and third
  child to be spawned send the bytes \<open>up0\<close>, \<open>up1\<close> and \<open>up2\<close> to the parent (the
  read halves of their pipes will be the files \<open>0\<close>, \<open>4\<close> and \<open>8\<close>); \<open>chunks0\<close>
  bounds the sizes of the successive reads from the first child.
\<close>

definition no_xcmd :: XCmd where
  "no_xcmd = \<lparr>Process = None, nextFd = 0, readPipe = None, writePipe = None\<rparr>"

definition boot_world :: "byte list \<Rightarrow> nat list \<Rightarrow> byte list \<Rightarrow> byte list \<Rightarrow> world" where
  "boot_world up0 chunks0 up1 up2 =
     \<lparr>files = (\<lambda>_. fresh_file)
               (0 := fresh_file\<lparr>rd_data := up0, rd_chunks := chunks0\<rparr>,
                4 := fresh_file\<lparr>rd_data := up1\<rparr>,
                8 := fresh_file\<lparr>rd_data := up2\<rparr>),
      next_file = 0, pipe_error = (\<lambda>_. None), xcmds = (\<lambda>_. no_xcmd), next_xcmd = 0,
      start_error = (\<lambda>_. None)\<rparr>"


section \<open>The reboot budget\<close>

text \<open>
  The \<open>Daemon\<close> that a call leaves behind, however it ends.
\<close>

definition outcome_daemon :: "'a outcome \<Rightarrow> Daemon" where
  "outcome_daemon r =
     (case r of Returns x d w \<Rightarrow> d | Exits n d w \<Rightarrow> d | Panics p d w \<Rightarrow> d | Deadlock d w \<Rightarrow> d)"

text \<open>
  An event is an unexpected exit of the child when the parent is in its signal loop,
  a goroutine waits for the current child, and the goroutine finds neither
  \<open>upgradeFlag\<close> at \<open>1\<close> (which it would consume) nor \<open>killedFlag\<close> set.
\<close>

definition unexpected_exit :: "event \<Rightarrow> parent \<Rightarrow> bool" where
  "unexpected_exit e st \<longleftrightarrow>
     status st = InLoop \<and> e = ChildExit \<and> 0 < wg (daemon st) \<and> xCmdObj (daemon st) \<noteq> None \<and>
     upgradeFlag (daemon st) \<noteq> 1 \<and> killedFlag (daemon st) = 0"

text \<open>
  A parent after a cold boot with the given value of \<^verbatim>\<open>--reboot_times\<close>, whose
  first child became ready, in a world where the next child will be ready too.
\<close>

definition cold_boot :: "64 word option \<Rightarrow> parent" where
  "cold_boot n =
     Bootstrap_parent n [''app''] (Inr []) Default (boot_world (frame ReadyOK) [] (frame ReadyOK) [])"

section \<open>Scenarios for upgrades\<close>

text \<open>
  A parent whose first child exited unexpectedly, whose restart failed because the
  second child answered \<open>ReadyError\<close>, and which then got \<open>SIGUSR2\<close> and installed
  a third child that answered \<open>ReadyOK\<close>.
\<close>

definition restarted_not_ready :: parent where
  "restarted_not_ready =
     run [ChildExit, Signal SIGUSR2]
       (Bootstrap_parent None [''app''] (Inr []) Default
          (boot_world (frame ReadyOK) [] (frame ReadyError) (frame ReadyOK)))"

text \<open>
  A world in which the first child sends \<open>ReadyOK\<close> and, in a later read,
  \<open>ExitReply\<close>, and the second child sends \<open>ReadyOK\<close>; and the parents of the
  earlier and of the later sources after their cold boot in it.
\<close>

definition upgrade_world :: world where
  "upgrade_world = boot_world (frame ReadyOK @ frame ExitReply) [11] (frame ReadyOK) []"

definition upgrade_v1 :: parent where
  "upgrade_v1 = Bootstrap_v1_parent [''app''] (Inr []) Default upgrade_world"

definition upgrade_v2 :: parent where
  "upgrade_v2 = Bootstrap_parent None [''app''] (Inr []) Default upgrade_world"

section \<open>Properties of the buffer\<close>

lemma length_go_copy [simp]: "length (go_copy dst src) = length dst"
  by (simp add: go_copy_def)

lemma go_copy_short: "length src \<le> length dst \<Longrightarrow> go_copy dst src = src @ drop (length src) dst"
  by (simp add: go_copy_def)

text \<open>
  C9. Compaction: in a buffer whose cursors are indices into the array
  (\<open>0 \<le> readIndex \<le> writeIndex \<le> capacity\<close>), \<open>DiscardReadBytes\<close> does not panic,
  leaves the number of readable bytes unchanged, sets the read cursor to \<open>0\<close> and
  the write cursor to the old number of readable bytes, keeps the capacity, and
  the first readable bytes of the array are the bytes that \<open>Slice\<close> of the readable
  count returned before the call (the regions may overlap).
\<close>

theorem DiscardReadBytes_compacts:
  assumes "0 \<le> readIndex b" and "readIndex b \<le> writeIndex b" and "writeIndex b \<le> cap b"
  shows "\<exists>b'. DiscardReadBytes b = Inr b'
           \<and> ReadableBytes b' = ReadableBytes b
           \<and> readIndex b' = 0
           \<and> writeIndex b' = ReadableBytes b
           \<and> cap b' = cap b
           \<and> Slice b (ReadableBytes b) = Inr (take (nat (ReadableBytes b)) (Internal b'))
           \<and> Slice b' (ReadableBytes b') = Slice b (ReadableBytes b)"
proof -
  let ?src = "take (nat (writeIndex b - readIndex b)) (drop (nat (readIndex b)) (Internal b))"
  have len: "length ?src = nat (writeIndex b - readIndex b)"
    using assms by (simp add: cap_def)
  have short: "length ?src \<le> length (Internal b)"
    using assms by (simp add: cap_def)
  have range: "slice_range (Internal b) (readIndex b) (writeIndex b) = Inr ?src"
    using assms by (simp add: slice_range_def cap_def)
  have front: "take (nat (writeIndex b - readIndex b)) (go_copy (Internal b) ?src) = ?src"
    using len by (simp add: go_copy_short [OF short])
  show ?thesis
    using assms range front
    by (simp add: DiscardReadBytes_def Slice_def ReadableBytes_def cap_def slice_range_def)
qed

theorem DiscardReadBytes_compacts_witness:
  "\<exists>b'. DiscardReadBytes \<lparr>Internal = [1, 2, 3, 4, 5], readIndex = 2, writeIndex = 4,
                            markedReadIndex = 0, markedWriteIndex = 0\<rparr> = Inr b'
        \<and> readIndex b' = 0 \<and> writeIndex b' = 2 \<and> take 2 (Internal b') = [3, 4]"
proof -
  let ?b = "\<lparr>Internal = [1, 2, 3, 4, 5 :: byte], readIndex = 2, writeIndex = 4,
             markedReadIndex = 0, markedWriteIndex = 0\<rparr>"
  have pre: "0 \<le> readIndex ?b" "readIndex ?b \<le> writeIndex ?b" "writeIndex ?b \<le> cap ?b"
    by (simp_all add: cap_def)
  from DiscardReadBytes_compacts [OF pre] obtain b' where
    "DiscardReadBytes ?b = Inr b'" "readIndex b' = 0" "writeIndex b' = ReadableBytes ?b"
    "Slice ?b (ReadableBytes ?b) = Inr (take (nat (ReadableBytes ?b)) (Internal b'))"
    by blast
  then show ?thesis
    by (simp add: ReadableBytes_def Slice_def slice_range_def)
qed

text \<open>
  \<open>growth\<close> doubles the capacity once (or takes the needed size when the capacity
  is \<open>0\<close>). When that is enough, \<open>WriteBytes\<close> appends: the readable region is the
  old one followed by the bytes written, and the write cursor stays within the
  capacity.
\<close>

lemma growth_pads:
  assumes "0 \<le> writeIndex b" and "writeIndex b \<le> cap b" and "0 \<le> n"
    and "writeIndex b + n \<le> 2 * cap b \<or> cap b = 0"
  shows "\<exists>pad. growth b n = Inr (b\<lparr>Internal := Internal b @ pad\<rparr>)
           \<and> writeIndex b + n \<le> cap b + int (length pad)
           \<and> int (length pad) = (if writeIndex b + n > cap b
                                   then (if cap b = 0 then n else cap b) else 0)"
proof (cases "writeIndex b + n > cap b")
  case False
  then have "growth b n = Inr (b\<lparr>Internal := Internal b @ []\<rparr>)"
    by (simp add: growth_def)
  with False show ?thesis by (intro exI [of _ "[]"]) simp
next
  case grow: True
  show ?thesis
  proof (cases "cap b = 0")
    case True
    then have nil: "Internal b = []" by (simp add: cap_def)
    with True grow assms have "growth b n = Inr (b\<lparr>Internal := Internal b @ replicate (nat n) 0\<rparr>)"
      by (simp add: growth_def cap_def make_bytes_def go_copy_def)
    with True grow assms show ?thesis by (intro exI [of _ "replicate (nat n) 0"]) simp
  next
    case False
    let ?c = "length (Internal b)"
    have "go_copy (replicate (nat (2 * int ?c)) (0::byte)) (Internal b) = Internal b @ replicate ?c 0"
      by (simp add: go_copy_def nat_mult_distrib)
    with False grow assms have "growth b n = Inr (b\<lparr>Internal := Internal b @ replicate ?c 0\<rparr>)"
      by (simp add: growth_def cap_def make_bytes_def)
    with False grow assms show ?thesis
      by (intro exI [of _ "replicate ?c 0"]) (simp add: cap_def)
  qed
qed

lemma WriteBytes_appends:
  assumes r: "0 \<le> readIndex b" "readIndex b \<le> writeIndex b" "writeIndex b \<le> cap b"
    and room: "writeIndex b + int (length bytes) \<le> 2 * cap b \<or> cap b = 0"
  shows "\<exists>b' old. WriteBytes b bytes = Inr b'
           \<and> Slice b (ReadableBytes b) = Inr old
           \<and> Slice b' (ReadableBytes b') = Inr (old @ bytes)
           \<and> readIndex b' = readIndex b
           \<and> writeIndex b' = writeIndex b + int (length bytes)
           \<and> writeIndex b' \<le> cap b'
           \<and> cap b' = (if writeIndex b + int (length bytes) > cap b
                        then (if cap b = 0 then int (length bytes) else 2 * cap b) else cap b)"
proof -
  define I where "I = Internal b"
  define w where "w = nat (writeIndex b)"
  define rd where "rd = nat (readIndex b)"
  define n where "n = length bytes"
  have wi: "writeIndex b = int w" and ri: "readIndex b = int rd"
    using r by (simp_all add: w_def rd_def)
  have rw: "rd \<le> w" and wI: "w \<le> length I"
    using r by (simp_all add: w_def rd_def I_def cap_def)
  have "\<exists>pad. growth b (int n) = Inr (b\<lparr>Internal := Internal b @ pad\<rparr>)
           \<and> writeIndex b + int n \<le> cap b + int (length pad)
           \<and> int (length pad) = (if writeIndex b + int n > cap b
                                   then (if cap b = 0 then int n else cap b) else 0)"
    using r room by (intro growth_pads) (simp_all add: n_def)
  then obtain pad where
    g0: "growth b (int n) = Inr (b\<lparr>Internal := Internal b @ pad\<rparr>)"
    and fits0: "writeIndex b + int n \<le> cap b + int (length pad)"
    and padlen0: "int (length pad) = (if writeIndex b + int n > cap b
                                   then (if cap b = 0 then int n else cap b) else 0)"
    by blast
  have g: "growth b (int n) = Inr (b\<lparr>Internal := I @ pad\<rparr>)"
    using g0 by (simp add: I_def)
  have fits: "int w + int n \<le> int (length I) + int (length pad)"
    using fits0 by (simp add: wi I_def cap_def)
  have padlen: "int (length pad) = (if int w + int n > int (length I)
                                   then (if length I = 0 then int n else int (length I)) else 0)"
    using padlen0 by (simp add: wi I_def cap_def)
  let ?dst = "drop w I @ pad"
  let ?I' = "take w I @ go_copy ?dst bytes"
  let ?b' = "b\<lparr>Internal := ?I', writeIndex := int w + int n\<rparr>"
  have dstlen: "n \<le> length ?dst"
    using fits wI by simp
  have cp: "go_copy ?dst bytes = bytes @ drop n ?dst"
    using dstlen by (simp add: go_copy_def n_def)
  have W: "WriteBytes b bytes = Inr ?b'"
    using g wI by (simp add: WriteBytes_def n_def [symmetric] slice_from_def wi I_def [symmetric])
  have old: "Slice b (ReadableBytes b) = Inr (take (w - rd) (drop rd I))"
    using rw wI by (simp add: Slice_def ReadableBytes_def slice_range_def wi ri I_def [symmetric]
        nat_diff_distrib')
  have lenI': "length ?I' = length I + length pad"
    using wI by simp
  have "take (w + n - rd) (drop rd ?I') = take (w - rd) (drop rd I) @ bytes"
    using rw wI by (simp add: cp n_def drop_take)
  moreover have "nat (int w + int n - int rd) = w + n - rd"
    by linarith
  moreover have "int rd \<le> int w + int n" "int w + int n \<le> int (length ?I')"
    using rw fits lenI' by linarith+
  ultimately have new: "Slice ?b' (ReadableBytes ?b') = Inr (take (w - rd) (drop rd I) @ bytes)"
    by (simp add: Slice_def ReadableBytes_def slice_range_def ri del: length_append of_nat_add)
  have capb': "cap ?b' = int (length I) + int (length pad)"
    using lenI' by (simp add: cap_def)
  show ?thesis
    apply (intro exI [of _ ?b'] exI [of _ "take (w - rd) (drop rd I)"])
    using W old new fits capb' padlen
    by (simp add: wi ri n_def cap_def I_def [symmetric])
qed

text \<open>
  C1 (the code departs from the claim). \<open>WriteBytes\<close> should make room for the
  bytes it appends, so that afterwards the readable region is the old one followed
  by exactly those bytes and the write cursor is within the capacity. \<open>growth\<close>
  doubles the capacity only once: writing ten bytes into an empty buffer of capacity
  four reallocates to eight bytes, not to ten, stores the first eight bytes only,
  and leaves the write cursor at ten, past the capacity, so that reading the
  readable region panics.
\<close>

theorem WriteBytes_single_doubling:
  "WriteBytes \<lparr>Internal = [0, 0, 0, 0], readIndex = 0, writeIndex = 0,
               markedReadIndex = 0, markedWriteIndex = 0\<rparr> [1, 2, 3, 4, 5, 6, 7, 8, 9, 10]
   = Inr \<lparr>Internal = [1, 2, 3, 4, 5, 6, 7, 8], readIndex = 0, writeIndex = 10,
          markedReadIndex = 0, markedWriteIndex = 0\<rparr>
   \<and> cap \<lparr>Internal = [1, 2, 3, 4, 5, 6, 7, 8], readIndex = 0, writeIndex = 10,
          markedReadIndex = 0, markedWriteIndex = 0\<rparr> = 8
   \<and> Slice \<lparr>Internal = [1, 2, 3, 4, 5, 6, 7, 8], readIndex = 0, writeIndex = 10,
          markedReadIndex = 0, markedWriteIndex = 0\<rparr> 10 = Inl SliceBoundsOutOfRange"
  by (simp add: WriteBytes_def growth_def cap_def make_bytes_def go_copy_def slice_from_def
      Slice_def slice_range_def numeral_eq_Suc)

section \<open>Properties of the pipe: Close and Write\<close>

lemma Close_noop: "IsClosed p \<Longrightarrow> Close p fs = (None, p, fs)"
  by (simp add: Close_def IsClosed_def)

lemma Close_first:
  assumes "closed p = 0" and "closes_cleanly p fs"
  shows "Close p fs = (None, p\<lparr>closed := 1, ReadPipe := None, WritePipe := None\<rparr>, closed_files p fs)"
  using assms
  by (cases "ReadPipe p"; cases "WritePipe p")
    (auto simp: Close_def closes_cleanly_def closed_files_def os_Close_def File_Close_def Let_def
      fun_eq_iff)

lemma Close_sets_flag: "closed p = 0 \<Longrightarrow> IsClosed (fst (snd (Close p fs)))"
  by (auto simp: Close_def IsClosed_def Let_def split: option.splits prod.splits)

lemma Close_times_closed:
  "IsClosed p \<Longrightarrow> Close_times n p fs = (replicate n None, p, fs)"
  by (induction n) (simp_all add: Close_noop)

text \<open>
  C8, as amended. A call of \<open>Close\<close> on a pipe that is already closed returns no
  error and changes nothing (the compare-and-swap fails). The first call on a pipe
  sets the closed flag, whatever the operating system answers. When the half-pipes
  are open files (or nil), any number of calls, one or more, return no error; the
  first call closes both files and clears both fields, the later calls are no-ops,
  and \<open>IsClosed\<close> holds afterwards.
\<close>

theorem Close_idempotent:
  "(IsClosed p \<longrightarrow> Close p fs = (None, p, fs))
   \<and> (closed p = 0 \<longrightarrow> IsClosed (fst (snd (Close p fs))))
   \<and> (closed p = 0 \<and> closes_cleanly p fs \<longrightarrow>
        Close_times (Suc n) p fs
          = (replicate (Suc n) None,
             p\<lparr>closed := 1, ReadPipe := None, WritePipe := None\<rparr>, closed_files p fs)
        \<and> IsClosed (fst (snd (Close_times (Suc n) p fs))))"
proof (intro conjI impI)
  assume "closed p = 0 \<and> closes_cleanly p fs"
  then have "Close p fs = (None, p\<lparr>closed := 1, ReadPipe := None, WritePipe := None\<rparr>, closed_files p fs)"
    by (simp add: Close_first)
  moreover have "IsClosed (p\<lparr>closed := 1, ReadPipe := None, WritePipe := None\<rparr>)"
    by (simp add: IsClosed_def)
  ultimately show c: "Close_times (Suc n) p fs
          = (replicate (Suc n) None,
             p\<lparr>closed := 1, ReadPipe := None, WritePipe := None\<rparr>, closed_files p fs)"
    by (simp add: Close_times_closed)
  show "IsClosed (fst (snd (Close_times (Suc n) p fs)))"
    by (simp only: c) (simp add: IsClosed_def)
qed (simp_all add: Close_noop Close_sets_flag)

theorem Close_idempotent_witness:
  "closed \<lparr>closed = 0, ReadPipe = Some 0, WritePipe = Some 1\<rparr> = 0
   \<and> closes_cleanly \<lparr>closed = 0, ReadPipe = Some 0, WritePipe = Some 1\<rparr> (\<lambda>_. fresh_file)
   \<and> Close_times 3 \<lparr>closed = 0, ReadPipe = Some 0, WritePipe = Some 1\<rparr> (\<lambda>_. fresh_file)
      = ([None, None, None], \<lparr>closed = 1, ReadPipe = None, WritePipe = None\<rparr>,
         (\<lambda>_. fresh_file)(0 := fresh_file\<lparr>file_closed := True\<rparr>,
                            1 := fresh_file\<lparr>file_closed := True\<rparr>))
   \<and> IsClosed \<lparr>closed = 1, ReadPipe = None, WritePipe = None\<rparr>
   \<and> Close \<lparr>closed = 1, ReadPipe = None, WritePipe = None\<rparr> (\<lambda>_. fresh_file)
      = (None, \<lparr>closed = 1, ReadPipe = None, WritePipe = None\<rparr>, \<lambda>_. fresh_file)"
proof -
  let ?p = "\<lparr>closed = 0, ReadPipe = Some 0, WritePipe = Some 1\<rparr>"
  let ?q = "\<lparr>closed = 1, ReadPipe = None, WritePipe = None\<rparr>"
  have pre: "closed ?p = 0 \<and> closes_cleanly ?p (\<lambda>_. fresh_file)"
    by (simp add: closes_cleanly_def fresh_file_def)
  have q: "IsClosed ?q"
    by (simp add: IsClosed_def)
  have fs: "closed_files ?p (\<lambda>_. fresh_file)
      = (\<lambda>_. fresh_file)(0 := fresh_file\<lparr>file_closed := True\<rparr>, 1 := fresh_file\<lparr>file_closed := True\<rparr>)"
    by (auto simp: closed_files_def fun_eq_iff)
  from Close_idempotent [of ?p "\<lambda>_. fresh_file" 2] pre
  have "Close_times 3 ?p (\<lambda>_. fresh_file) = (replicate 3 None, ?q, closed_files ?p (\<lambda>_. fresh_file))"
    by (simp add: numeral_3_eq_3)
  moreover from Close_idempotent [of ?q "\<lambda>_. fresh_file" 0] q
  have "Close ?q (\<lambda>_. fresh_file) = (None, ?q, \<lambda>_. fresh_file)"
    by blast
  ultimately show ?thesis
    using pre q fs by (simp add: numeral_3_eq_3)
qed

text \<open>
  C8, the claim as stated fails: \<open>Close\<close> returns the error of the operating system.
  When the read half was closed before (through the file that \<open>GetReadPipe\<close> hands
  out, say), the first call returns \<open>os.ErrClosed\<close>, and it returns before it
  closes the write half, which stays open.
\<close>

theorem Close_os_error:
  "Close \<lparr>closed = 0, ReadPipe = Some 0, WritePipe = Some 1\<rparr>
         ((\<lambda>_. fresh_file)(0 := fresh_file\<lparr>file_closed := True\<rparr>))
   = (Some ErrClosed, \<lparr>closed = 1, ReadPipe = Some 0, WritePipe = Some 1\<rparr>,
      (\<lambda>_. fresh_file)(0 := fresh_file\<lparr>file_closed := True\<rparr>))
   \<and> \<not> file_closed (((\<lambda>_. fresh_file)(0 := fresh_file\<lparr>file_closed := True\<rparr>)) (1::nat))"
  by (simp add: Close_def os_Close_def File_Close_def fresh_file_def)

lemma length_PutUint32 [simp]: "length (PutUint32 v) = 4"
  by (simp add: PutUint32_def)

lemma Uint32_PutUint32: "Uint32 (PutUint32 v @ rest) = v"
proof -
  have aux: "24 + (n - 24) = n" if "\<not> n - 16 < 8" for n :: nat
    using that by simp
  show ?thesis
    apply (simp add: Uint32_def PutUint32_def)
    apply (rule bit_word_eqI)
    apply (auto simp: bit_simps)
    apply (rule ccontr)
    apply (simp add: aux)
    done
qed

lemma take_min_length [simp]: "take (min k (length xs)) xs = take k xs"
  by (simp add: min_def)

lemma os_Write_sent:
  assumes "os_Write (WritePipe p) raw fs = ((n, e), fs1)"
  shows "n \<le> length raw \<and> delivered p fs1 = delivered p fs @ take n raw
         \<and> (\<forall>fd. WritePipe p \<noteq> Some fd \<longrightarrow> fs1 fd = fs fd)"
  using assms
  by (auto simp: os_Write_def File_Write_def delivered_def
      split: option.splits if_splits list.splits prod.splits)

lemma writeEmpty_prefix:
  "writeEmpty p raw fs = (err, fs') \<Longrightarrow>
     \<exists>k\<le>length raw. delivered p fs' = delivered p fs @ take k raw
        \<and> (err = None \<longrightarrow> k = length raw)
        \<and> (\<forall>fd. WritePipe p \<noteq> Some fd \<longrightarrow> fs' fd = fs fd)"
proof (induction p raw fs arbitrary: err fs' rule: writeEmpty.induct)
  case (1 p raw fs)
  show ?case
  proof (cases "0 < length raw")
    case False
    with "1.prems" show ?thesis by (simp add: writeEmpty.simps [of p raw fs])
  next
    case True
    obtain n e fs1 where w: "os_Write (WritePipe p) raw fs = ((n, e), fs1)"
      by (metis surj_pair)
    note s = os_Write_sent [OF w]
    show ?thesis
    proof (cases e)
      case (Some x)
      with True w "1.prems" have "err = Some x" "fs' = fs1"
        by (simp_all add: writeEmpty.simps [of p raw fs])
      with s show ?thesis by (intro exI [of _ n]) simp
    next
      case None
      with True w "1.prems" have rec: "writeEmpty p (drop n raw) fs1 = (err, fs')"
        by (simp add: writeEmpty.simps [of p raw fs])
      have "\<not> e \<noteq> None" using None by simp
      from "1.IH" [OF True w [symmetric] refl this rec]
      obtain k where k: "k \<le> length (drop n raw)"
        "delivered p fs' = delivered p fs1 @ take k (drop n raw)"
        "err = None \<longrightarrow> k = length (drop n raw)"
        "\<forall>fd. WritePipe p \<noteq> Some fd \<longrightarrow> fs' fd = fs1 fd"
        by auto
      have "take n raw @ take k (drop n raw) = take (n + k) raw"
        by (simp add: take_add)
      with k s show ?thesis
        by (intro exI [of _ "n + k"]) auto
    qed
  qed
qed



section \<open>Properties of the pipe: Read\<close>

lemma length_frame [simp]: "length (frame b) = 4 + length b"
  by (simp add: frame_def)


lemma Uint32_append:
  assumes "4 \<le> length t" shows "Uint32 (t @ r) = Uint32 t"
proof -
  have "(t @ r) ! i = t ! i" if "i < 4" for i
    using that assms by (simp add: nth_append)
  then show ?thesis
    unfolding Uint32_def by simp
qed

lemma uint_Uint32_frame: "length f < 2 ^ 32 \<Longrightarrow> uint (Uint32 (frame f @ r)) = int (length f)"
  by (simp add: frame_def Uint32_PutUint32 unsigned_of_nat take_bit_nat_eq_self)

lemma incomplete_prefix:
  assumes "incomplete (p @ q)" shows "incomplete p"
proof (cases "length p < 4")
  case True then show ?thesis by (simp add: incomplete_def)
next
  case False
  then have "Uint32 (p @ q) = Uint32 p" by (simp add: Uint32_append)
  with assms False show ?thesis by (auto simp: incomplete_def)
qed

lemma incomplete_frame_prefix:
  assumes "length f < 2 ^ 32" and "length p < length (frame f)" and "p @ q = frame f @ r"
  shows "incomplete p"
proof (cases "length p < 4")
  case True then show ?thesis by (simp add: incomplete_def)
next
  case False
  then have "Uint32 p = Uint32 (p @ q)" by (simp add: Uint32_append)
  also have "uint \<dots> = int (length f)" using assms by (simp add: uint_Uint32_frame)
  finally show ?thesis using assms by (simp add: incomplete_def)
qed

lemma visit_append:
  "visit cb s (xs @ ys) = (case visit cb s xs of (flag, s') \<Rightarrow> if flag then visit cb s' ys else (False, s'))"
  by (induction xs arbitrary: s) (auto split: prod.splits)

lemma holds_Slice:
  assumes "holds b X" and "r + n \<le> length X"
  shows "Slice (b\<lparr>readIndex := int r\<rparr>) (int n) = Inr (take n (drop r X))"
proof -
  have X: "X = take (length X) (Internal b)" and le: "length X \<le> length (Internal b)"
    using assms(1) by (simp_all add: holds_def)
  have "take n (drop r X) = take n (drop r (take (length X) (Internal b)))"
    using X by simp
  also have "\<dots> = take n (drop r (Internal b))"
    using assms(2) by (simp add: drop_take min_def)
  finally show ?thesis
    using assms(2) le by (simp add: Slice_def slice_range_def)
qed

lemma holds_Slice0:
  assumes "holds b X" and "n \<le> length X"
  shows "Slice b (int n) = Inr (take n X)"
proof -
  have "readIndex b = 0" using assms(1) by (simp add: holds_def)
  then have "b\<lparr>readIndex := int 0\<rparr> = b" by simp
  with holds_Slice [OF assms(1), of 0 n] assms(2) show ?thesis by simp
qed

lemma holds_Discard:
  assumes "holds b X" and "r \<le> length X"
  shows "\<exists>b'. DiscardReadBytes (b\<lparr>readIndex := int r\<rparr>) = Inr b' \<and> holds b' (drop r X)
              \<and> length (Internal b') = length (Internal b)"
proof -
  have X: "take (length X) (Internal b) = X" and le: "length X \<le> length (Internal b)"
    and w: "writeIndex b = int (length X)"
    using assms(1) by (simp_all add: holds_def)
  have src: "take (length X - r) (drop r (Internal b)) = drop r X"
    using X by (metis drop_take)
  have "slice_range (Internal b) (int r) (int (length X)) = Inr (drop r X)"
    using assms(2) le src by (simp add: slice_range_def nat_diff_distrib')
  then have D: "DiscardReadBytes (b\<lparr>readIndex := int r\<rparr>)
      = Inr (b\<lparr>Internal := go_copy (Internal b) (drop r X),
               writeIndex := int (length X) - int r, readIndex := 0\<rparr>)"
    by (simp add: DiscardReadBytes_def w)
  have "length (drop r X) \<le> length (Internal b)"
    using le by simp
  then have "take (length (drop r X)) (go_copy (Internal b) (drop r X)) = drop r X"
    by (simp add: go_copy_short)
  then have "holds (b\<lparr>Internal := go_copy (Internal b) (drop r X),
               writeIndex := int (length X) - int r, readIndex := 0\<rparr>) (drop r X)"
    using assms(2) le by (simp add: holds_def of_nat_diff)
  with D show ?thesis by simp
qed

lemma Read_frames_visit:
  assumes "holds b (concat (map frame fs) @ tail)"
    and "\<forall>f\<in>set fs. length f < 2 ^ 32"
    and "incomplete tail"
  shows "\<exists>b'. Read_frames cb True s b = Inr (fst (visit cb s fs), snd (visit cb s fs), b')
              \<and> (fst (visit cb s fs) \<longrightarrow> holds b' tail)
              \<and> length (Internal b') = length (Internal b)"
  using assms
proof (induction fs arbitrary: s b)
  case Nil
  then have h: "holds b tail" by simp
  then have rb: "ReadableBytes b = int (length tail)"
    by (simp add: holds_def ReadableBytes_def)
  show ?case
  proof (cases "length tail < 4")
    case True
    with rb h show ?thesis by (simp add: Read_frames.simps [of cb True s b])
  next
    case False
    from holds_Slice0 [OF h, of 4] False
    have "Slice b 4 = Inr (take 4 tail)"
      by simp
    moreover have "Uint32 (take 4 tail) = Uint32 tail"
      using False Uint32_append [of "take 4 tail" "drop 4 tail"] by simp
    ultimately show ?thesis
      using False rb h Nil.prems(3)
      by (simp add: Read_frames.simps [of cb True s b] incomplete_def)
  qed
next
  case (Cons f fs)
  let ?Y = "concat (map frame fs) @ tail"
  let ?X = "frame f @ ?Y"
  have h: "holds b ?X" using Cons.prems(1) by simp
  have lf: "length f < 2 ^ 32" using Cons.prems(2) by simp
  have r0: "readIndex b = 0" using h by (simp add: holds_def)
  then have b0: "b\<lparr>readIndex := int 0\<rparr> = b" by simp
  have rb: "ReadableBytes b = 4 + int (length f) + int (length ?Y)"
    using h by (simp add: holds_def ReadableBytes_def)
  have hdr: "Slice b 4 = Inr (PutUint32 (word_of_nat (length f)))"
    using holds_Slice0 [OF h, of 4] by (simp add: frame_def)
  have cs: "uint (Uint32 (PutUint32 (word_of_nat (length f)))) = int (length f)"
    using lf Uint32_PutUint32 [of "word_of_nat (length f)" "[]"]
    by (simp add: unsigned_of_nat take_bit_nat_eq_self)
  have dat: "Slice (SetReadIndex b (GetReadIndex b + 4)) (int (length f)) = Inr f"
    using holds_Slice [OF h, of 4 "length f"] r0
    by (simp add: SetReadIndex_def GetReadIndex_def frame_def)
  obtain flag s' where cb: "cb s f = (flag, s')" by (metis surj_pair)
  show ?case
  proof (cases flag)
    case False
    have "Internal (SetReadIndex b (GetReadIndex b + 4)) = Internal b"
      by (simp add: SetReadIndex_def)
    with False hdr cs dat cb rb show ?thesis
      by (simp add: Read_frames.simps [of cb True s b])
  next
    case True
    from holds_Discard [OF h, of "4 + length f"]
    obtain b2 where d: "DiscardReadBytes (b\<lparr>readIndex := int (4 + length f)\<rparr>) = Inr b2"
      and h2: "holds b2 ?Y" and len2: "length (Internal b2) = length (Internal b)"
      by auto
    have d': "DiscardReadBytes (SetReadIndex (SetReadIndex b (GetReadIndex b + 4))
                (GetReadIndex (SetReadIndex b (GetReadIndex b + 4)) + int (length f))) = Inr b2"
      using d r0 by (simp add: SetReadIndex_def GetReadIndex_def add.commute)
    have step: "Read_frames cb True s b = Read_frames cb True s' b2"
      using hdr cs dat cb rb True d'
      by (simp add: Read_frames.simps [of cb True s b])
    from Cons.IH [OF h2 _ Cons.prems(3), of s'] Cons.prems(2)
    obtain b' where "Read_frames cb True s' b2 = Inr (fst (visit cb s' fs), snd (visit cb s' fs), b')"
      "fst (visit cb s' fs) \<longrightarrow> holds b' tail" "length (Internal b') = length (Internal b2)"
      by auto
    with step cb True len2 show ?thesis by simp
  qed
qed

lemma split_frames:
  assumes "X @ D = concat (map frame frs) @ tail"
  shows "\<exists>dn rest pre'. frs = dn @ rest \<and> X = concat (map frame dn) @ pre'
            \<and> pre' @ D = concat (map frame rest) @ tail
            \<and> (rest = [] \<or> length pre' < length (frame (hd rest)))"
  using assms
proof (induction frs arbitrary: X)
  case Nil
  show ?case
  proof (intro exI conjI)
    show "[] = [] @ []" by simp
    show "X = concat (map frame []) @ X" by simp
    show "X @ D = concat (map frame []) @ tail" using Nil by simp
    show "[] = [] \<or> length X < length (frame (hd []))" by simp
  qed
next
  case (Cons f frs)
  show ?case
  proof (cases "length X < length (frame f)")
    case True
    show ?thesis
    proof (intro exI conjI)
      show "f # frs = [] @ (f # frs)" by simp
      show "X = concat (map frame []) @ X" by simp
      show "X @ D = concat (map frame (f # frs)) @ tail" using Cons.prems by simp
      show "f # frs = [] \<or> length X < length (frame (hd (f # frs)))" using True by simp
    qed
  next
    case False
    let ?X' = "drop (length (frame f)) X"
    from Cons.prems have eq: "X @ D = frame f @ (concat (map frame frs) @ tail)" by simp
    from False have "length (frame f) \<le> length X" by simp
    with eq have "take (length (frame f)) X = frame f"
      by (metis append_eq_append_conv_if append_eq_conv_conj)
    then have X: "X = frame f @ ?X'"
      by (metis append_take_drop_id)
    have "frame f @ (?X' @ D) = frame f @ (concat (map frame frs) @ tail)"
      using eq X by (metis append_assoc)
    then have "?X' @ D = concat (map frame frs) @ tail"
      by (simp only: same_append_eq)
    from Cons.IH [OF this] obtain dn rest pre' where *:
      "frs = dn @ rest" "?X' = concat (map frame dn) @ pre'"
      "pre' @ D = concat (map frame rest) @ tail"
      "rest = [] \<or> length pre' < length (frame (hd rest))"
      by blast
    show ?thesis
    proof (intro exI conjI)
      show "f # frs = (f # dn) @ rest" using * by simp
      show "X = concat (map frame (f # dn)) @ pre'" using X * by simp
      show "pre' @ D = concat (map frame rest) @ tail" using * by simp
      show "rest = [] \<or> length pre' < length (frame (hd rest))" using * by simp
    qed
  qed
qed

lemma File_Read_data:
  assumes "\<not> file_closed f" and "0 < len" and "rd_data f \<noteq> []"
  shows "\<exists>k. 0 < k \<and> k \<le> len
           \<and> File_Read f len = ((take k (rd_data f), None),
                                  f\<lparr>rd_data := drop k (rd_data f), rd_chunks := tl (rd_chunks f)\<rparr>)"
proof (cases "rd_chunks f")
  case Nil
  with assms show ?thesis by (intro exI [of _ len]) (simp add: File_Read_def)
next
  case (Cons c cs)
  with assms show ?thesis
    by (intro exI [of _ "min len (max 1 c)"]) (simp add: File_Read_def Let_def less_max_iff_disj)
qed

lemma holds_fill:
  assumes "holds b pre" and "length pre + length got \<le> length (Internal b)"
  shows "holds (SetWriteIndex
                 (b\<lparr>Internal := take (nat (GetWriteIndex b)) (Internal b)
                                   @ go_copy (drop (length pre) (Internal b)) got\<rparr>)
                 (GetWriteIndex b + int (length got))) (pre @ got)"
    and "length (Internal (SetWriteIndex
                 (b\<lparr>Internal := take (nat (GetWriteIndex b)) (Internal b)
                                   @ go_copy (drop (length pre) (Internal b)) got\<rparr>)
                 (GetWriteIndex b + int (length got)))) = length (Internal b)"
proof -
  have w: "writeIndex b = int (length pre)" and r: "readIndex b = 0"
    and t: "take (length pre) (Internal b) = pre" and le: "length pre \<le> length (Internal b)"
    using assms(1) by (simp_all add: holds_def)
  have "length got \<le> length (drop (length pre) (Internal b))"
    using assms(2) by simp
  then have cp: "go_copy (drop (length pre) (Internal b)) got
      = got @ drop (length got) (drop (length pre) (Internal b))"
    by (rule go_copy_short)
  show "holds (SetWriteIndex
                 (b\<lparr>Internal := take (nat (GetWriteIndex b)) (Internal b)
                                   @ go_copy (drop (length pre) (Internal b)) got\<rparr>)
                 (GetWriteIndex b + int (length got))) (pre @ got)"
    using assms(2) le by (simp add: holds_def SetWriteIndex_def GetWriteIndex_def w r t cp)
  show "length (Internal (SetWriteIndex
                 (b\<lparr>Internal := take (nat (GetWriteIndex b)) (Internal b)
                                   @ go_copy (drop (length pre) (Internal b)) got\<rparr>)
                 (GetWriteIndex b + int (length got)))) = length (Internal b)"
    using le by (simp add: SetWriteIndex_def GetWriteIndex_def w)
qed

lemma Read_loop_frames:
  assumes "\<not> file_closed (fs fd)"
    and "holds b pre"
    and "pre @ rd_data (fs fd) = concat (map frame frs) @ tail"
    and "frs = [] \<or> length pre < length (frame (hd frs))"
    and "\<forall>f\<in>set frs. length f + 4 \<le> length (Internal b)"
    and "length (Internal b) \<le> 2 ^ 32"
    and "\<forall>n\<le>length (Internal b). incomplete (take n tail)"
  shows "\<exists>fs'. Read_loop cb s b (Some fd) fs
            = Inr (if fst (visit cb s frs) \<and> length tail < length (Internal b)
                   then Some (rd_end (fs fd)) else None,
                   snd (visit cb s frs), fs')
          \<and> (\<forall>fd'. fd' \<noteq> fd \<longrightarrow> fs' fd' = fs fd')"
  using assms
proof (induction "length (rd_data (fs fd))" arbitrary: fs b pre frs s rule: less_induct)
  case less
  let ?I = "Internal b"
  let ?C = "length ?I"
  let ?data = "rd_data (fs fd)"
  have h: "holds b pre" by fact
  have w: "writeIndex b = int (length pre)" and le: "length pre \<le> ?C"
    using h by (simp_all add: holds_def)
  have sf: "slice_from ?I (GetWriteIndex b) = Inr (drop (length pre) ?I)"
    using w le by (simp add: slice_from_def GetWriteIndex_def)
  have lt: "length f < 2 ^ 32" if "f \<in> set frs" for f
    using less.prems(5) [rule_format, OF that] less.prems(6) by simp
  have full: "frs = []" if "length pre = ?C \<or> ?data = []"
  proof (rule ccontr)
    assume ne: "frs \<noteq> []"
    then obtain f frs' where frs: "frs = f # frs'" by (cases frs) auto
    with less.prems(4) have short: "length pre < length (frame f)" by simp
    from frs less.prems(5) have "length (frame f) \<le> ?C" by simp
    with short that have "?data = []" by auto
    with less.prems(3) frs have "length pre = length (frame f @ concat (map frame frs') @ tail)"
      by simp
    with short show False by simp
  qed
  show ?case
  proof (cases "length pre = ?C")
    case True
    then have frs: "frs = []" using full by simp
    with less.prems(3) have "length tail = length pre + length ?data" by (metis append_Nil concat.simps(1) length_append list.simps(8))
    with True have big: "\<not> length tail < ?C" by simp
    have "os_Read (Some fd) (length (drop (length pre) ?I)) fs = (([], None), fs)"
      using True less.prems(1) by (simp add: os_Read_def File_Read_def)
    with sf frs big show ?thesis
      by (simp add: Read_loop.simps [of cb s b "Some fd" fs])
  next
    case False
    with le have room: "0 < length (drop (length pre) ?I)" by simp
    show ?thesis
    proof (cases "?data = []")
      case True
      then have frs: "frs = []" using full by simp
      with less.prems(3) True have "tail = pre" by simp
      with False le have small: "length tail < ?C" by simp
      have "os_Read (Some fd) (length (drop (length pre) ?I)) fs
              = (([], Some (rd_end (fs fd))), fs)"
        using True room less.prems(1) by (simp add: os_Read_def File_Read_def)
      with sf frs small show ?thesis
        by (simp add: Read_loop.simps [of cb s b "Some fd" fs])
    next
      case data: False
      from File_Read_data [OF less.prems(1) room data]
      obtain k where k: "0 < k" "k \<le> length (drop (length pre) ?I)"
        and fr: "File_Read (fs fd) (length (drop (length pre) ?I))
                  = ((take k ?data, None),
                     (fs fd)\<lparr>rd_data := drop k ?data, rd_chunks := tl (rd_chunks (fs fd))\<rparr>)"
        by blast
      define got where "got = take k ?data"
      let ?f1 = "(fs fd)\<lparr>rd_data := drop k ?data, rd_chunks := tl (rd_chunks (fs fd))\<rparr>"
      let ?fs1 = "fs(fd := ?f1)"
      let ?b1 = "SetWriteIndex
                 (b\<lparr>Internal := take (nat (GetWriteIndex b)) ?I
                                   @ go_copy (drop (length pre) ?I) got\<rparr>)
                 (GetWriteIndex b + int (length got))"
      have os: "os_Read (Some fd) (length (drop (length pre) ?I)) fs = ((got, None), ?fs1)"
        using fr by (simp add: os_Read_def got_def)
      have got: "\<not> length got \<le> 0" using k data by (simp add: got_def)
      have fitgot: "length pre + length got \<le> ?C" using k le by (simp add: got_def)
      note h1 = holds_fill [OF h fitgot]
      have "(pre @ got) @ drop k ?data = concat (map frame frs) @ tail"
        using less.prems(3) by (simp add: got_def)
      from split_frames [OF this] obtain dn rest pre' where
        frs: "frs = dn @ rest" and X: "pre @ got = concat (map frame dn) @ pre'"
        and rest: "pre' @ drop k ?data = concat (map frame rest) @ tail"
        and pos: "rest = [] \<or> length pre' < length (frame (hd rest))"
        by blast
      have inc: "incomplete pre'"
      proof (cases rest)
        case Nil
        with rest have "tail = pre' @ drop k ?data" by simp
        then have "take (length pre') tail = pre'" by simp
        moreover have "length pre' \<le> ?C"
          using fitgot X by (metis le_add2 le_trans length_append)
        ultimately show ?thesis using less.prems(7) by metis
      next
        case (Cons f rest')
        with frs have "f \<in> set frs" by simp
        then have "length f < 2 ^ 32" by (rule lt)
        moreover from Cons pos have "length pre' < length (frame f)" by simp
        moreover from Cons rest have "pre' @ drop k ?data = frame f @ (concat (map frame rest') @ tail)"
          by simp
        ultimately show ?thesis by (rule incomplete_frame_prefix)
      qed
      have small: "\<forall>f\<in>set dn. length f < 2 ^ 32"
        using frs lt by auto
      from Read_frames_visit [OF _ small inc, of ?b1 cb s] h1 X
      obtain b2 where rf: "Read_frames cb True s ?b1 = Inr (fst (visit cb s dn), snd (visit cb s dn), b2)"
        and h2: "fst (visit cb s dn) \<longrightarrow> holds b2 pre'"
        and len2: "length (Internal b2) = ?C"
        by auto
      have va: "visit cb s frs = (if fst (visit cb s dn) then visit cb (snd (visit cb s dn)) rest
                                  else (False, snd (visit cb s dn)))"
        by (simp add: frs visit_append split: prod.splits)
      show ?thesis
      proof (cases "fst (visit cb s dn)")
        case False
        with sf os got rf va show ?thesis
          by (simp add: Read_loop.simps [of cb s b "Some fd" fs])
      next
        case True
        have step: "Read_loop cb s b (Some fd) fs = Read_loop cb (snd (visit cb s dn)) b2 (Some fd) ?fs1"
          using sf os got rf True by (simp add: Read_loop.simps [of cb s b "Some fd" fs])
        have less1: "length (rd_data (?fs1 fd)) < length (rd_data (fs fd))"
          using k data by simp
        have "\<exists>fs'. Read_loop cb (snd (visit cb s dn)) b2 (Some fd) ?fs1
            = Inr (if fst (visit cb (snd (visit cb s dn)) rest) \<and> length tail < length (Internal b2)
                   then Some (rd_end (?fs1 fd)) else None,
                   snd (visit cb (snd (visit cb s dn)) rest), fs')
          \<and> (\<forall>fd'. fd' \<noteq> fd \<longrightarrow> fs' fd' = ?fs1 fd')"
        proof (rule less.hyps [where fs = ?fs1 and b = b2 and pre = pre' and frs = rest, OF less1])
          show "\<not> file_closed (?fs1 fd)" using less.prems(1) by simp
          show "holds b2 pre'" using h2 True by simp
          show "pre' @ rd_data (?fs1 fd) = concat (map frame rest) @ tail" using rest by simp
          show "rest = [] \<or> length pre' < length (frame (hd rest))" by (rule pos)
          show "\<forall>f\<in>set rest. length f + 4 \<le> length (Internal b2)"
            using frs less.prems(5) len2 by auto
          show "length (Internal b2) \<le> 2 ^ 32" using len2 less.prems(6) by simp
          show "\<forall>n\<le>length (Internal b2). incomplete (take n tail)"
            using less.prems(7) len2 by simp
        qed
        then obtain fs' where
          "Read_loop cb (snd (visit cb s dn)) b2 (Some fd) ?fs1
            = Inr (if fst (visit cb (snd (visit cb s dn)) rest) \<and> length tail < length (Internal b2)
                   then Some (rd_end (?fs1 fd)) else None,
                   snd (visit cb (snd (visit cb s dn)) rest), fs')"
          "\<forall>fd'. fd' \<noteq> fd \<longrightarrow> fs' fd' = ?fs1 fd'"
          by blast
        with step va True len2 show ?thesis by simp
      qed
    qed
  qed
qed

lemma visit_collect: "visit collect s fs = (True, s @ fs)"
  by (induction fs arbitrary: s) (simp_all add: collect_def)

lemma Write_ok:
  assumes "\<not> IsClosed p" and "Write p raw fs = (None, fs')"
  shows "delivered p fs' = delivered p fs @ frame raw
         \<and> (\<forall>fd. WritePipe p \<noteq> Some fd \<longrightarrow> fs' fd = fs fd)"
proof -
  let ?h = "PutUint32 (word_of_nat (length raw))"
  obtain e1 fs1 where h: "writeEmpty p ?h fs = (e1, fs1)" by (metis surj_pair)
  with assms have e1: "e1 = None" and r: "writeEmpty p raw fs1 = (None, fs')"
    by (auto simp: Write_def split: option.splits)
  from writeEmpty_prefix [OF h] e1 have 1: "delivered p fs1 = delivered p fs @ ?h"
    "\<forall>fd. WritePipe p \<noteq> Some fd \<longrightarrow> fs1 fd = fs fd"
    by auto
  from writeEmpty_prefix [OF r] have 2: "delivered p fs' = delivered p fs1 @ raw"
    "\<forall>fd. WritePipe p \<noteq> Some fd \<longrightarrow> fs' fd = fs1 fd"
    by auto
  from 1 2 show ?thesis by (simp add: frame_def)
qed

lemma Write_all_delivers:
  assumes "\<not> IsClosed p" and "Write_all p bs fs = (None, fs')"
  shows "delivered p fs' = delivered p fs @ concat (map frame bs)
         \<and> (\<forall>fd. WritePipe p \<noteq> Some fd \<longrightarrow> fs' fd = fs fd)"
  using assms(2)
proof (induction bs arbitrary: fs)
  case Nil
  then show ?case by simp
next
  case (Cons b bs)
  obtain e fs1 where w: "Write p b fs = (e, fs1)" by (metis surj_pair)
  with Cons.prems have e: "e = None" and rest: "Write_all p bs fs1 = (None, fs')"
    by (auto split: option.splits)
  from Write_ok [OF assms(1)] w e have "delivered p fs1 = delivered p fs @ frame b"
    "\<forall>fd. WritePipe p \<noteq> Some fd \<longrightarrow> fs1 fd = fs fd"
    by auto
  with Cons.IH [OF rest] show ?case by simp
qed

lemma writeEmpty_fresh:
  assumes "WritePipe p = Some w" and "\<not> file_closed (fs w)" and "wr_script (fs w) = []"
  shows "writeEmpty p raw fs = (None, fs(w := (fs w)\<lparr>wr_sent := wr_sent (fs w) @ raw\<rparr>))"
proof (cases "raw = []")
  case True
  then show ?thesis by (simp add: writeEmpty.simps [of p "[]" fs])
next
  case False
  let ?fs1 = "fs(w := (fs w)\<lparr>wr_sent := wr_sent (fs w) @ raw\<rparr>)"
  have "os_Write (WritePipe p) raw fs = ((length raw, None), ?fs1)"
    using assms by (simp add: os_Write_def File_Write_def)
  with False show ?thesis
    by (simp add: writeEmpty.simps [of p raw fs] writeEmpty.simps [of p "[]" ?fs1])
qed

lemma Write_fresh:
  assumes "\<not> IsClosed p" and "WritePipe p = Some w" and "\<not> file_closed (fs w)"
    and "wr_script (fs w) = []"
  shows "Write p raw fs = (None, fs(w := (fs w)\<lparr>wr_sent := wr_sent (fs w) @ frame raw\<rparr>))"
  using assms
  by (simp add: Write_def writeEmpty_fresh frame_def)

lemma NewBuffer_holds:
  "\<exists>b. NewBuffer (2 ^ 16) = Inr b \<and> holds b [] \<and> length (Internal b) = 2 ^ 16"
  by (simp add: NewBuffer_def make_bytes_def holds_def)

lemma Read_stream:
  assumes "\<not> IsClosed p" and "ReadPipe p = Some r" and "\<not> file_closed (fs r)"
    and "rd_data (fs r) = concat (map frame frs) @ tail"
    and "\<forall>f\<in>set frs. length f + 4 \<le> 2 ^ 16"
    and "\<forall>n\<le>2 ^ 16. incomplete (take n tail)"
  shows "\<exists>fs'. Read p cb s fs
            = Inr (if fst (visit cb s frs) \<and> length tail < 2 ^ 16
                   then Some (rd_end (fs r)) else None,
                   snd (visit cb s frs), fs')
          \<and> (\<forall>fd'. fd' \<noteq> r \<longrightarrow> fs' fd' = fs fd')"
proof -
  from NewBuffer_holds obtain b where b: "NewBuffer (2 ^ 16) = Inr b" "holds b []"
    "length (Internal b) = 2 ^ 16"
    by blast
  have R: "Read p cb s fs = Read_loop cb s b (Some r) fs"
    using assms(1,2) b(1) by (simp add: Read_def)
  have "\<exists>fs'. Read_loop cb s b (Some r) fs
            = Inr (if fst (visit cb s frs) \<and> length tail < length (Internal b)
                   then Some (rd_end (fs r)) else None,
                   snd (visit cb s frs), fs')
          \<and> (\<forall>fd'. fd' \<noteq> r \<longrightarrow> fs' fd' = fs fd')"
  proof (rule Read_loop_frames [where pre = "[]"])
    show "\<not> file_closed (fs r)" by fact
    show "holds b []" by fact
    show "[] @ rd_data (fs r) = concat (map frame frs) @ tail" using assms(4) by simp
    show "frs = [] \<or> length [] < length (frame (hd frs))" by simp
    show "\<forall>f\<in>set frs. length f + 4 \<le> length (Internal b)" using assms(5) b(3) by simp
    show "length (Internal b) \<le> 2 ^ 32" using b(3) by simp
    show "\<forall>n\<le>length (Internal b). incomplete (take n tail)" using assms(6) b(3) by simp
  qed
  with R b(3) show ?thesis by simp
qed

lemma large_frame_stalls:
  assumes "2 ^ 16 < length b + 4" and "length b < 2 ^ 32"
  shows "\<forall>n\<le>2 ^ 16. incomplete (take n (frame b @ rest))"
proof (intro allI impI)
  fix n :: nat
  assume "n \<le> 2 ^ 16"
  with assms(1) have "length (take n (frame b @ rest)) < length (frame b)"
    by simp
  moreover have "take n (frame b @ rest) @ drop n (frame b @ rest) = frame b @ rest"
    by (rule append_take_drop_id)
  ultimately show "incomplete (take n (frame b @ rest))"
    using assms(2) by (intro incomplete_frame_prefix [of b _ "drop n (frame b @ rest)" rest])
qed

text \<open>
  C10. A frame whose payload length \<open>N\<close> has \<open>N + 4 > 2^16\<close> is never handed to the
  visitor: whatever frames of fitting size (\<open>frs\<close>) come before it and whatever bytes
  come after it, however the operating system cuts the stream into reads and
  whatever stands at its end, \<open>Read\<close> returns, with no error, after the visitor has
  seen the frames before the large one and nothing else. The 64 KiB buffer fills up,
  the next read is given an empty slice and returns no bytes, and the loop ends.
\<close>

theorem Read_drops_large_frame:
  assumes "2 ^ 16 < length b + 4" and "length b < 2 ^ 32"
    and "\<forall>f\<in>set frs. length f + 4 \<le> 2 ^ 16"
    and "\<not> IsClosed p" and "ReadPipe p = Some r" and "\<not> file_closed (fs r)"
    and "rd_data (fs r) = concat (map frame frs) @ frame b @ rest"
  shows "\<exists>fs'. Read p cb s fs = Inr (None, snd (visit cb s frs), fs')"
proof -
  have "\<not> length (frame b @ rest) < 2 ^ 16"
    using assms(1) by simp
  moreover have "\<forall>n\<le>2 ^ 16. incomplete (take n (frame b @ rest))"
    using assms(1,2) by (rule large_frame_stalls)
  ultimately show ?thesis
    using Read_stream [where tail = "frame b @ rest" and cb = cb and s = s
        and p = p and r = r and fs = fs and frs = frs] assms(3-7)
    by auto
qed

theorem Read_drops_large_frame_witness:
  "\<exists>fs'. Read \<lparr>closed = 0, ReadPipe = Some 0, WritePipe = None\<rparr> collect []
            ((\<lambda>_. fresh_file)(0 := fresh_file\<lparr>rd_data := concat (map frame [[1, 2], []])
                                         @ frame (replicate 65533 0) @ frame [3]\<rparr>))
        = Inr (None, [[1, 2], []], fs')"
proof -
  let ?p = "\<lparr>closed = 0, ReadPipe = Some 0, WritePipe = None\<rparr>"
  let ?fs = "(\<lambda>_. fresh_file)(0 := fresh_file\<lparr>rd_data := concat (map frame [[1, 2], []])
                                         @ frame (replicate 65533 0) @ frame [3]\<rparr>)"
  have "\<exists>fs'. Read ?p collect [] ?fs = Inr (None, snd (visit collect [] [[1, 2], []]), fs')"
  proof (rule Read_drops_large_frame [where b = "replicate 65533 0" and r = 0 and rest = "frame [3]"])
    show "2 ^ 16 < length (replicate 65533 (0::byte)) + 4" by simp
    show "length (replicate 65533 (0::byte)) < 2 ^ 32" by simp
    show "\<forall>f\<in>set [[1, 2], [] :: byte list]. length f + 4 \<le> 2 ^ 16" by simp
    show "\<not> IsClosed ?p" by (simp add: IsClosed_def)
    show "ReadPipe ?p = Some 0" by simp
    show "\<not> file_closed (?fs 0)" by (simp add: fresh_file_def)
    show "rd_data (?fs 0) = concat (map frame [[1, 2], []]) @ frame (replicate 65533 0) @ frame [3]"
      by simp
  qed
  then show ?thesis by (simp only: visit_collect) simp
qed

text \<open>
  C2, as amended. Payloads \<open>b1, \<dots>, bn\<close> of at most \<open>2^16 - 4\<close> bytes each, written
  back to back through a pipe without a write error, and read back from the other
  half of the pipe with a visitor that always continues, give exactly \<open>n\<close> visitor
  calls, in the order of writing, the \<open>i\<close>-th with exactly \<open>bi\<close>; one payload gives
  one call. \<open>Read\<close> then returns \<^verbatim>\<open>io.EOF\<close>, the error of its last read.
\<close>

theorem Read_roundtrip:
  assumes "\<forall>b\<in>set bs. length b + 4 \<le> 2 ^ 16"
    and "\<not> IsClosed p" and "ReadPipe p = Some r" and "WritePipe p = Some w" and "r \<noteq> w"
    and "\<not> file_closed (fs r)" and "wr_sent (fs w) = []"
    and "fst (Write_all p bs fs) = None"
  shows "\<exists>fs'. Read p collect [] (pipe_carry w r (snd (Write_all p bs fs))) = Inr (Some EOF, bs, fs')"
proof -
  obtain fs1 where W: "Write_all p bs fs = (None, fs1)"
    using assms(8) by (metis prod.collapse)
  from Write_all_delivers [OF assms(2) W] assms(3,4,5,7)
  have sent: "wr_sent (fs1 w) = concat (map frame bs)" and same: "fs1 r = fs r"
    by (auto simp: delivered_def)
  let ?fs2 = "pipe_carry w r fs1"
  have "\<exists>fs'. Read p collect [] ?fs2
            = Inr (if fst (visit collect [] bs) \<and> length ([] :: byte list) < 2 ^ 16
                   then Some (rd_end (?fs2 r)) else None,
                   snd (visit collect [] bs), fs')
          \<and> (\<forall>fd'. fd' \<noteq> r \<longrightarrow> fs' fd' = ?fs2 fd')"
  proof (rule Read_stream [OF assms(2,3)])
    show "\<not> file_closed (?fs2 r)" using assms(6) same by (simp add: pipe_carry_def)
    show "rd_data (?fs2 r) = concat (map frame bs) @ []" using sent by (simp add: pipe_carry_def)
    show "\<forall>f\<in>set bs. length f + 4 \<le> 2 ^ 16" by fact
    show "\<forall>n\<le>2 ^ 16. incomplete (take n [])" by (simp add: incomplete_def)
  qed
  then obtain fs' where "Read p collect [] ?fs2
            = Inr (if fst (visit collect [] bs) \<and> length ([] :: byte list) < 2 ^ 16
                   then Some (rd_end (?fs2 r)) else None,
                   snd (visit collect [] bs), fs')"
    by blast
  then have "Read p collect [] ?fs2 = Inr (Some EOF, bs, fs')"
    by (simp add: visit_collect pipe_carry_def)
  then show ?thesis
    using W by auto
qed

theorem Read_roundtrip_witness:
  "length [1, 2, 3 :: byte] + 4 \<le> 2 ^ 16
   \<and> fst (Write_all \<lparr>closed = 0, ReadPipe = Some 0, WritePipe = Some 1\<rparr>
             [[1, 2, 3], [], [4]] short_writes) = None
   \<and> (\<exists>fs'. Read \<lparr>closed = 0, ReadPipe = Some 0, WritePipe = Some 1\<rparr> collect []
             (pipe_carry 1 0 (snd (Write_all \<lparr>closed = 0, ReadPipe = Some 0, WritePipe = Some 1\<rparr>
                                     [[1, 2, 3], [], [4]] short_writes)))
          = Inr (Some EOF, [[1, 2, 3], [], [4]], fs'))"
proof -
  let ?p = "\<lparr>closed = 0, ReadPipe = Some 0, WritePipe = Some 1\<rparr>"
  have small: "\<forall>b\<in>set [[1, 2, 3], [], [4 :: byte]]. length b + 4 \<le> 2 ^ 16"
    by simp
  have ok: "fst (Write_all ?p [[1, 2, 3], [], [4]] short_writes) = None"
    by (simp add: Write_def IsClosed_def writeEmpty.simps os_Write_def File_Write_def
        short_writes_def fresh_file_def PutUint32_def)
  have "\<exists>fs'. Read ?p collect []
             (pipe_carry 1 0 (snd (Write_all ?p [[1, 2, 3], [], [4]] short_writes)))
          = Inr (Some EOF, [[1, 2, 3], [], [4]], fs')"
    using small ok
    by (intro Read_roundtrip [where r = 0 and w = 1])
      (simp_all add: IsClosed_def short_writes_def fresh_file_def)
  with ok show ?thesis by simp
qed

text \<open>
  C2, the claim as stated fails for a payload of \<open>65533\<close> bytes: written as one frame
  and read back, it never reaches the visitor, and \<open>Read\<close> returns no error.
\<close>

theorem Read_roundtrip_too_large:
  "\<exists>fs'. Read \<lparr>closed = 0, ReadPipe = Some 0, WritePipe = Some 1\<rparr> collect []
          (pipe_carry 1 0 (snd (Write_all \<lparr>closed = 0, ReadPipe = Some 0, WritePipe = Some 1\<rparr>
                                  [replicate 65533 0] (\<lambda>_. fresh_file))))
        = Inr (None, [], fs')"
proof -
  let ?p = "\<lparr>closed = 0, ReadPipe = Some 0, WritePipe = Some 1\<rparr>"
  let ?b = "replicate 65533 (0::byte)"
  let ?fs1 = "(\<lambda>_. fresh_file)(1 := fresh_file\<lparr>wr_sent := wr_sent fresh_file @ frame ?b\<rparr>)"
  have p: "\<not> IsClosed ?p" by (simp add: IsClosed_def)
  have "Write ?p ?b (\<lambda>_. fresh_file) = (None, ?fs1)"
    by (rule Write_fresh [OF p]) (simp_all add: fresh_file_def)
  then have W: "snd (Write_all ?p [?b] (\<lambda>_. fresh_file)) = ?fs1"
    by simp
  let ?fs2 = "pipe_carry 1 0 ?fs1"
  have "\<exists>fs'. Read ?p collect [] ?fs2
            = Inr (if fst (visit collect [] []) \<and> length (frame ?b @ []) < 2 ^ 16
                   then Some (rd_end (?fs2 0)) else None,
                   snd (visit collect [] []), fs')
          \<and> (\<forall>fd'. fd' \<noteq> 0 \<longrightarrow> fs' fd' = ?fs2 fd')"
  proof (rule Read_stream [OF p])
    show "ReadPipe ?p = Some 0" by simp
    show "\<not> file_closed (?fs2 0)" by (simp add: pipe_carry_def fresh_file_def)
    show "rd_data (?fs2 0) = concat (map frame []) @ frame ?b @ []"
      by (simp add: pipe_carry_def fresh_file_def)
    show "\<forall>f\<in>set ([] :: byte list list). length f + 4 \<le> 2 ^ 16" by simp
    show "\<forall>n\<le>2 ^ 16. incomplete (take n (frame ?b @ []))"
      by (rule large_frame_stalls) simp_all
  qed
  then obtain fs' where "Read ?p collect [] ?fs2
            = Inr (if fst (visit collect [] []) \<and> length (frame ?b @ []) < 2 ^ 16
                   then Some (rd_end (?fs2 0)) else None,
                   snd (visit collect [] []), fs')"
    by blast
  then have "Read ?p collect [] ?fs2 = Inr (None, [], fs')"
    by simp
  then show ?thesis
    by (simp only: W) blast
qed

section \<open>Properties of the supervisor\<close>









lemmas scenario_simps =
  Bootstrap_parent_def Bootstrap_v1_parent_def Bootstrap_signal_def Bootstrap_v1_signal_def
  step_def step_v1_def stopped_def Bootstrap_return_def deferredClose_def
  replaceChildProcess.simps waitGoroutine.simps waitGoroutine_v1_def installChild_def
  waitChildSafeExit_def spawnChildProcess_def NewXCmd_def NewXPipe_def Start_def AddFile_def
  XCmd_Close_def ParentRead_def ParentWrite_def Process_Kill_def
  readyCallback_def exitCallback_def ReadyOK_def ReadyError_def ExitRequest_def ExitReply_def bytes_of_def
  Default_def New_def boot_world_def no_xcmd_def fresh_file_def frame_def PutUint32_def
  Read_def IsClosed_def NewBuffer_def make_bytes_def Read_loop.simps Read_frames.simps
  slice_from_def os_Read_def File_Read_def
  GetWriteIndex_def SetWriteIndex_def go_copy_def ReadableBytes_def Slice_def slice_range_def Uint32_def
  SetReadIndex_def GetReadIndex_def DiscardReadBytes_def Let_def
  Write_def writeEmpty.simps os_Write_def File_Write_def Close_def os_Close_def File_Close_def




subsection \<open>The reboot budget\<close>

lemma daemon_stopped: "daemon (stopped r st) = outcome_daemon r"
  by (simp add: stopped_def outcome_daemon_def split: outcome.splits)

lemma daemon_Bootstrap_return: "daemon (Bootstrap_return e d w st) = d"
  by (simp add: Bootstrap_return_def)

lemma waitGoroutine_planned:
  assumes "upgradeFlag d = 1 \<or> killedFlag d \<noteq> 0"
  shows "rebootTimes (outcome_daemon (waitGoroutine d t w)) = rebootTimes d"
  using assms
  by (auto simp add: waitGoroutine.simps [of d t w] outcome_daemon_def Let_def
      split: option.splits)

lemma replaceChildProcess_no_child:
  assumes "xCmdObj d = None"
  shows "rebootTimes (outcome_daemon (replaceChildProcess d t w)) = rebootTimes d"
  using assms
  by (auto simp add: replaceChildProcess.simps [of d t w] outcome_daemon_def Let_def installChild_def
      split: option.splits sum.splits prod.splits)

lemma outcome_daemon_simps [simp]:
  "outcome_daemon (Returns x d w) = d"
  "outcome_daemon (Exits n d w) = d"
  "outcome_daemon (Panics p d w) = d"
  "outcome_daemon (Deadlock d w) = d"
  by (simp_all add: outcome_daemon_def)

lemma replaceChildProcess_planned:
  assumes "upgradeFlag d = 1 \<or> killedFlag d \<noteq> 0"
  shows "rebootTimes (outcome_daemon (replaceChildProcess d t w)) = rebootTimes d"
proof -
  have g: "rebootTimes (outcome_daemon r) = rebootTimes d"
    if "waitGoroutine (d\<lparr>locked := True\<rparr>) t w' = r" for w' r
    using waitGoroutine_planned [of "d\<lparr>locked := True\<rparr>" t w'] assms that by simp
  show ?thesis
    by (auto simp add: replaceChildProcess.simps [of d t w] Let_def installChild_def
      split: option.splits sum.splits prod.splits outcome.splits dest: g)
qed

lemma waitGoroutine_no_child:
  assumes "xCmdObj d = None"
  shows "waitGoroutine d t w = Panics NilDereference d w"
  using assms by (simp add: waitGoroutine.simps [of d t w])

lemma waitGoroutine_crash:
  assumes "xCmdObj d = Some c" and "upgradeFlag d \<noteq> 1" and "killedFlag d = 0"
  shows "rebootTimes (outcome_daemon (waitGoroutine d t w)) = rebootTimes d - 1"
    and "sint (rebootTimes d - 1) < 0 \<Longrightarrow>
      (\<exists>d' w'. waitGoroutine d t w = Exits (- 1) d' w') \<or>
      (\<exists>d' w'. waitGoroutine d t w = Panics NilDereference d' w')"
    and "sint (rebootTimes d - 1) < 0 \<Longrightarrow> Process (xcmds w c) \<noteq> None \<Longrightarrow>
      (\<exists>d' w'. waitGoroutine d t w = Exits (- 1) d' w')"
proof -
  have g: "rebootTimes (outcome_daemon r) = rebootTimes d - 1"
    if "replaceChildProcess (d\<lparr>rebootTimes := rebootTimes d - 1, xCmdObj := None\<rparr>) t w' = r" for w' r
    using replaceChildProcess_no_child [of "d\<lparr>rebootTimes := rebootTimes d - 1, xCmdObj := None\<rparr>" t w'] that
    by simp
  show "rebootTimes (outcome_daemon (waitGoroutine d t w)) = rebootTimes d - 1"
    using assms
    by (auto simp add: waitGoroutine.simps [of d t w] Let_def
      split: option.splits sum.splits prod.splits outcome.splits dest: g)
  show "sint (rebootTimes d - 1) < 0 \<Longrightarrow>
      (\<exists>d' w'. waitGoroutine d t w = Exits (- 1) d' w') \<or>
      (\<exists>d' w'. waitGoroutine d t w = Panics NilDereference d' w')"
    using assms
    by (auto simp add: waitGoroutine.simps [of d t w] Let_def split: option.splits)
  show "sint (rebootTimes d - 1) < 0 \<Longrightarrow> Process (xcmds w c) \<noteq> None \<Longrightarrow>
      (\<exists>d' w'. waitGoroutine d t w = Exits (- 1) d' w')"
    using assms
    by (auto simp add: waitGoroutine.simps [of d t w] Let_def split: option.splits)
qed

lemma Bootstrap_signal_rebootTimes:
  "rebootTimes (daemon (Bootstrap_signal s st)) = rebootTimes (daemon st)"
proof -
  have k: "rebootTimes (outcome_daemon r) = rebootTimes (daemon st)"
    if "waitGoroutine (daemon st\<lparr>killedFlag := 1\<rparr>) t w' = r" for w' r t
    using waitGoroutine_planned [of "daemon st\<lparr>killedFlag := 1\<rparr>" t w'] that by simp
  have u: "rebootTimes (outcome_daemon r) = rebootTimes (daemon st)"
    if "replaceChildProcess (daemon st\<lparr>upgradeFlag := 1\<rparr>) t w' = r" for w' r t
    using replaceChildProcess_planned [of "daemon st\<lparr>upgradeFlag := 1\<rparr>" t w'] that by simp
  show ?thesis
    by (auto simp add: Bootstrap_signal_def Let_def daemon_stopped daemon_Bootstrap_return
      split: option.splits sum.splits prod.splits outcome.splits dest: k u)
qed

lemma step_rebootTimes:
  "rebootTimes (daemon (step e st)) =
     (if unexpected_exit e st then rebootTimes (daemon st) - 1 else rebootTimes (daemon st))"
proof (cases "unexpected_exit e st")
  case True
  then obtain c where c: "xCmdObj (daemon st) = Some c"
    by (auto simp add: unexpected_exit_def)
  from True c show ?thesis
    using waitGoroutine_crash(1) [where d = "daemon st" and c = c and t = "listeners st" and w = "os_world st"]
    by (simp add: unexpected_exit_def step_def daemon_stopped)
next
  case False
  show ?thesis
  proof (cases e)
    case (Signal s)
    then show ?thesis
      by (simp add: step_def unexpected_exit_def Bootstrap_signal_rebootTimes)
  next
    case ChildExit
    show ?thesis
    proof (cases "status st = InLoop \<and> 0 < wg (daemon st)")
      case n: False
      then show ?thesis using ChildExit by (auto simp add: step_def unexpected_exit_def)
    next
      case y: True
      show ?thesis
      proof (cases "xCmdObj (daemon st)")
        case None
        then show ?thesis
          using ChildExit y False
          by (simp add: step_def unexpected_exit_def daemon_stopped waitGoroutine_no_child)
      next
        case (Some c)
        with False ChildExit y have "upgradeFlag (daemon st) = 1 \<or> killedFlag (daemon st) \<noteq> 0"
          by (auto simp add: unexpected_exit_def)
        then show ?thesis
          using ChildExit y False
          by (simp add: step_def daemon_stopped waitGoroutine_planned)
      qed
    qed
  qed
qed

lemma step_exhausted:
  assumes "unexpected_exit e st" and "sint (rebootTimes (daemon st) - 1) < 0"
  shows "status (step e st) = Exited (- 1) \<or> status (step e st) = Panicked NilDereference"
proof -
  from assms(1) obtain c where c: "xCmdObj (daemon st) = Some c"
    by (auto simp add: unexpected_exit_def)
  from waitGoroutine_crash(2) [where d = "daemon st" and c = c and t = "listeners st" and w = "os_world st"] c assms
  show ?thesis
    by (auto simp add: unexpected_exit_def step_def stopped_def)
qed

lemma step_exits:
  assumes "unexpected_exit e st" and "sint (rebootTimes (daemon st) - 1) < 0"
    and "xCmdObj (daemon st) = Some c" and "Process (xcmds (os_world st) c) \<noteq> None"
  shows "status (step e st) = Exited (- 1)"
proof -
  from waitGoroutine_crash(3) [where d = "daemon st" and c = c and t = "listeners st" and w = "os_world st"] assms
  show ?thesis
    by (auto simp add: unexpected_exit_def step_def stopped_def)
qed

lemma step_stopped: "status st \<noteq> InLoop \<Longrightarrow> step e st = st"
  by (simp add: step_def)

lemma sint_pred:
  fixes x :: "64 word"
  assumes "- (2 ^ 63) < sint x"
  shows "sint (x - 1) = sint x - 1"
proof -
  have "sint x < 2 ^ 63"
    using sint_lt [of x] by simp
  with assms show ?thesis
    by (simp add: sint_word_ariths signed_take_bit_int_eq_self)
qed

lemma run_rebootTimes:
  assumes "status st \<noteq> InLoop \<or> - (2 ^ 63) < sint (rebootTimes (daemon st))"
  shows "sint (rebootTimes (daemon (run es st))) \<le> sint (rebootTimes (daemon st))"
  using assms
proof (induction es arbitrary: st)
  case Nil
  show ?case by simp
next
  case (Cons e es)
  show ?case
  proof (cases "status st = InLoop")
    case False
    then have "step e st = st" by (rule step_stopped)
    with Cons show ?thesis by simp
  next
    case True
    with Cons.prems have lo: "- (2 ^ 63) < sint (rebootTimes (daemon st))" by simp
    have le: "sint (rebootTimes (daemon (step e st))) \<le> sint (rebootTimes (daemon st))"
      using sint_pred [OF lo] by (simp add: step_rebootTimes)
    have inv: "status (step e st) \<noteq> InLoop \<or> - (2 ^ 63) < sint (rebootTimes (daemon (step e st)))"
    proof (cases "unexpected_exit e st")
      case u: True
      show ?thesis
      proof (cases "sint (rebootTimes (daemon st) - 1) < 0")
        case True
        from step_exhausted [OF u True] show ?thesis by auto
      next
        case False
        with u show ?thesis by (simp add: step_rebootTimes)
      qed
    next
      case False
      with lo show ?thesis by (simp add: step_rebootTimes)
    qed
    from Cons.IH [OF inv] le show ?thesis by simp
  qed
qed

lemma Bootstrap_parent_rebootTimes:
  assumes "xCmdObj d = None"
  shows "rebootTimes (daemon (Bootstrap_parent n args l d w)) = (case n of None \<Rightarrow> 3 | Some k \<Rightarrow> k)"
proof -
  have g: "rebootTimes (outcome_daemon r) = k"
    if "replaceChildProcess (d\<lparr>rebootTimes := k, origArgs := args\<rparr>) t w' = r" for w' r t k
    using replaceChildProcess_no_child [of "d\<lparr>rebootTimes := k, origArgs := args\<rparr>" t w'] that assms
    by simp
  show ?thesis
    by (auto simp add: Bootstrap_parent_def Let_def daemon_stopped daemon_Bootstrap_return
      split: option.splits sum.splits prod.splits outcome.splits dest: g)
qed

text \<open>
  C4, as amended. Along any run of the parent that starts with a budget other than the
  least 64-bit integer, \<open>rebootTimes\<close> never goes up. One event takes exactly one
  from it when it is an unexpected exit of the child, and leaves it alone
  otherwise: signals, planned shutdowns and planned retirements do not count.
  When the value after the decrement is negative, the parent leaves the loop; it
  exits with status \<open>-1\<close> whenever the child has a process (and panics on the nil
  process otherwise). \<open>New\<close> sets the budget to \<open>3\<close>, and \<open>Bootstrap\<close> starts
  from \<open>3\<close> unless \<^verbatim>\<open>--reboot_times\<close> says otherwise.
\<close>

theorem rebootTimes_countdown:
  "(status st \<noteq> InLoop \<or> - (2 ^ 63) < sint (rebootTimes (daemon st)) \<longrightarrow>
      sint (rebootTimes (daemon (run es st))) \<le> sint (rebootTimes (daemon st)))
   \<and> rebootTimes (daemon (step e st)) =
       (if unexpected_exit e st then rebootTimes (daemon st) - 1 else rebootTimes (daemon st))
   \<and> (unexpected_exit e st \<and> sint (rebootTimes (daemon st) - 1) < 0 \<longrightarrow>
        status (step e st) = Exited (- 1) \<or> status (step e st) = Panicked NilDereference)
   \<and> (unexpected_exit e st \<and> sint (rebootTimes (daemon st) - 1) < 0 \<and>
      xCmdObj (daemon st) = Some c \<and> Process (xcmds (os_world st) c) \<noteq> None \<longrightarrow>
        status (step e st) = Exited (- 1))
   \<and> rebootTimes (New a1 a2 a3 a4 a5) = 3
   \<and> rebootTimes (daemon (Bootstrap_parent n args l (New a1 a2 a3 a4 a5) w)) =
       (case n of None \<Rightarrow> 3 | Some k \<Rightarrow> k)"
proof (intro conjI impI)
  assume "status st \<noteq> InLoop \<or> - (2 ^ 63) < sint (rebootTimes (daemon st))"
  then show "sint (rebootTimes (daemon (run es st))) \<le> sint (rebootTimes (daemon st))"
    by (rule run_rebootTimes)
next
  show "rebootTimes (daemon (step e st)) =
       (if unexpected_exit e st then rebootTimes (daemon st) - 1 else rebootTimes (daemon st))"
    by (rule step_rebootTimes)
next
  assume "unexpected_exit e st \<and> sint (rebootTimes (daemon st) - 1) < 0"
  then show "status (step e st) = Exited (- 1) \<or> status (step e st) = Panicked NilDereference"
    using step_exhausted [of e st] by simp
next
  assume "unexpected_exit e st \<and> sint (rebootTimes (daemon st) - 1) < 0 \<and>
      xCmdObj (daemon st) = Some c \<and> Process (xcmds (os_world st) c) \<noteq> None"
  then show "status (step e st) = Exited (- 1)"
    using step_exits [of e st c] by simp
next
  show "rebootTimes (New a1 a2 a3 a4 a5) = 3"
    by (simp add: New_def)
next
  show "rebootTimes (daemon (Bootstrap_parent n args l (New a1 a2 a3 a4 a5) w)) =
       (case n of None \<Rightarrow> 3 | Some k \<Rightarrow> k)"
    by (rule Bootstrap_parent_rebootTimes) (simp add: New_def)
qed

theorem rebootTimes_countdown_witness:
  "unexpected_exit ChildExit (cold_boot None)
   \<and> rebootTimes (daemon (cold_boot None)) = 3
   \<and> status (step ChildExit (cold_boot None)) = InLoop
   \<and> rebootTimes (daemon (step ChildExit (cold_boot None))) = 2
   \<and> sint (rebootTimes (daemon (run [ChildExit, Signal SIGUSR2] (cold_boot None)))) \<le> 3
   \<and> unexpected_exit ChildExit (cold_boot (Some 0))
   \<and> rebootTimes (daemon (step ChildExit (cold_boot (Some 0)))) = - 1
   \<and> status (step ChildExit (cold_boot (Some 0))) = Exited (- 1)"
  using rebootTimes_countdown [of "cold_boot None" "[ChildExit, Signal SIGUSR2]" ChildExit 0
      "''child''" "''upgrade''" "''bootstrap_args''" "''bootstrapLogs''" "''daemonPID''" None "[''app'']" "Inr []"
      "boot_world (frame ReadyOK) [] (frame ReadyOK) []"]
    rebootTimes_countdown [of "cold_boot (Some 0)" "[]" ChildExit 0]
  by (simp add: cold_boot_def unexpected_exit_def scenario_simps)

text \<open>
  C4, the claim as stated fails at one budget. Started with \<^verbatim>\<open>--reboot_times\<close> at
  the least 64-bit integer, the first unexpected exit of the child wraps the
  budget around to the greatest one: the value has gone up, and the parent stays
  in its loop with a new child.
\<close>

theorem rebootTimes_wraps:
  "unexpected_exit ChildExit (cold_boot (Some (- 9223372036854775808)))
   \<and> sint (rebootTimes (daemon (cold_boot (Some (- 9223372036854775808))))) = - 9223372036854775808
   \<and> status (step ChildExit (cold_boot (Some (- 9223372036854775808)))) = InLoop
   \<and> sint (rebootTimes (daemon (step ChildExit (cold_boot (Some (- 9223372036854775808)))))) = 9223372036854775807"
  by (simp add: cold_boot_def unexpected_exit_def scenario_simps)

subsection \<open>Upgrades\<close>

text \<open>
  C6, at a failing input. After an unexpected exit of the first child, a failed
  restart and a \<open>SIGUSR2\<close> that installed the third child, the parent is in its
  loop with \<open>upgradeFlag\<close> still \<open>1\<close>: no goroutine was there to consume it. The next
  \<open>SIGUSR2\<close> finds the flag at \<open>1\<close>; no child is spawned and the flag is unchanged,
  but \<open>Bootstrap\<close> returns instead of going on with its loop, and leaves the
  current child running.
\<close>

theorem second_SIGUSR2_returns:
  "status restarted_not_ready = InLoop
   \<and> upgradeFlag (daemon restarted_not_ready) = 1
   \<and> rebootTimes (daemon restarted_not_ready) = 2
   \<and> xCmdObj (daemon restarted_not_ready) = Some 2
   \<and> status (step (Signal SIGUSR2) restarted_not_ready) = Returned None
   \<and> upgradeFlag (daemon (step (Signal SIGUSR2) restarted_not_ready)) = 1
   \<and> xCmdObj (daemon (step (Signal SIGUSR2) restarted_not_ready)) = Some 2
   \<and> next_xcmd (os_world (step (Signal SIGUSR2) restarted_not_ready)) = next_xcmd (os_world restarted_not_ready)
   \<and> map_option killed (Process (xcmds (os_world (step (Signal SIGUSR2) restarted_not_ready)) 2)) = Some False"
  by (simp add: restarted_not_ready_def scenario_simps)

text \<open>
  C3, at a failing input. On \<open>SIGUSR2\<close> the \<open>Bootstrap\<close> of the earlier sources spawns
  a second child, whose pipe to the parent is file \<open>4\<close>, and then reads from the
  pipe of the first child, file \<open>0\<close>: it consumes what the first child had sent,
  gets the end of the file and gives the upgrade up, while the \<open>ReadyOK\<close> of the
  second child remains unread. In the same world the \<open>Bootstrap\<close> of the later
  sources reads the \<open>ReadyOK\<close> of the second child and installs it.
\<close>

theorem v1_reads_old_child:
  "status upgrade_v1 = InLoop
   \<and> xCmdObj (daemon upgrade_v1) = Some 0
   \<and> map_option ReadPipe (readPipe (xcmds (os_world upgrade_v1) 0)) = Some (Some 0)
   \<and> rd_data (files (os_world upgrade_v1) 0) = frame ExitReply
   \<and> rd_data (files (os_world upgrade_v1) 4) = frame ReadyOK
   \<and> status (step_v1 (Signal SIGUSR2) upgrade_v1) = Returned (Some EOF)
   \<and> xCmdObj (daemon (step_v1 (Signal SIGUSR2) upgrade_v1)) = Some 0
   \<and> map_option ReadPipe (readPipe (xcmds (os_world (step_v1 (Signal SIGUSR2) upgrade_v1)) 1)) = Some (Some 4)
   \<and> rd_data (files (os_world (step_v1 (Signal SIGUSR2) upgrade_v1)) 0) = []
   \<and> rd_data (files (os_world (step_v1 (Signal SIGUSR2) upgrade_v1)) 4) = frame ReadyOK
   \<and> status upgrade_v2 = InLoop
   \<and> rd_data (files (os_world upgrade_v2) 0) = frame ExitReply
   \<and> status (step (Signal SIGUSR2) upgrade_v2) = InLoop
   \<and> xCmdObj (daemon (step (Signal SIGUSR2) upgrade_v2)) = Some 1
   \<and> rd_data (files (os_world (step (Signal SIGUSR2) upgrade_v2)) 4) = []"
  by (simp add: upgrade_v1_def upgrade_v2_def upgrade_world_def scenario_simps)

end
